theory Spec2Isabelle
  imports Main "HOL-Library.AList"
begin

section \<open>JavaScript values and errors\<close>

subsection \<open>Values\<close>

text \<open>
  The TypeScript sources pass around values of type \<^verbatim>\<open>any\<close> and plain objects of
  type \<^verbatim>\<open>Record<string, any>\<close>. A value is one of the cases below; a function is
  known by its name only. A plain object is the list of its own enumerable properties
  in the order they are enumerated: array indices first, in ascending order, then the
  other names in the order of their creation. Its prototype is \<^verbatim>\<open>Object.prototype\<close>.
  Numbers are restricted to integers.
\<close>

datatype jsval =
    JUndefined
  | JNull
  | JBool bool
  | JNum int
  | JBigInt int
  | JStr string
  | JArr "jsval list"
  | JObj "(string \<times> jsval) list"
  | JFunction string

type_synonym jsobject = "(string \<times> jsval) list"

text \<open>\<^verbatim>\<open>enum ErrorCodes\<close> of the types module.\<close>

datatype ErrorCodes =
    PROMPT_NOT_FOUND
  | INVALID_INPUT
  | ACCESS_DENIED
  | EXECUTION_FAILED
  | BLOCKCHAIN_ERROR
  | VALIDATION_ERROR
  | NETWORK_ERROR
  | INSUFFICIENT_BALANCE
  | RATE_LIMIT_EXCEEDED
  | SIGNATURE_VERIFICATION_FAILED

text \<open>
  What a \<^verbatim>\<open>throw\<close> carries: the repository's own \<^verbatim>\<open>PromptHubMCPError(code, message,
  details)\<close>, or one of the built-in errors raised by the runtime.
\<close>

datatype js_error =
    PromptHubMCPError ErrorCodes string jsval
  | TypeError string
  | SyntaxError string

subsection \<open>Properties inherited from Object.prototype\<close>

text \<open>The property names every plain object inherits.\<close>

definition object_prototype_names :: "string list" where
  "object_prototype_names =
     [''constructor'', ''__defineGetter__'', ''__defineSetter__'', ''hasOwnProperty'',
      ''__lookupGetter__'', ''__lookupSetter__'', ''isPrototypeOf'', ''propertyIsEnumerable'',
      ''toString'', ''valueOf'', ''__proto__'', ''toLocaleString'']"

text \<open>What a read of an inherited name gives: the accessor \<^verbatim>\<open>__proto__\<close> gives
  \<^verbatim>\<open>Object.prototype\<close> itself, an object without enumerable properties; every other
  name is a method.\<close>

definition inherited :: "string \<Rightarrow> jsval option" where
  "inherited k =
     (if k = ''__proto__'' then Some (JObj [])
      else if k \<in> set object_prototype_names then Some (JFunction k)
      else None)"

text \<open>The test \<^verbatim>\<open>k in obj\<close> on a plain object: own and inherited names.\<close>

definition has_key :: "string \<Rightarrow> (string \<times> 'a) list \<Rightarrow> bool" where
  "has_key k obj = (k \<in> set (map fst obj) \<or> k \<in> set object_prototype_names)"

text \<open>The read \<^verbatim>\<open>obj[k]\<close> on a plain object.\<close>

definition js_get :: "jsobject \<Rightarrow> string \<Rightarrow> jsval" where
  "js_get obj k =
     (case map_of obj k of
        Some v \<Rightarrow> v
      | None \<Rightarrow> (case inherited k of Some v \<Rightarrow> v | None \<Rightarrow> JUndefined))"

subsection \<open>Decimal numerals and array indices\<close>

text \<open>Decimal rendering of an index or a number, as template literals do.\<close>

definition digit_char :: "nat \<Rightarrow> char" where
  "digit_char d = ''0123456789'' ! d"

fun string_of_nat :: "nat \<Rightarrow> string" where
  "string_of_nat n =
     (if n < 10 then [digit_char n] else string_of_nat (n div 10) @ [digit_char (n mod 10)])"

declare string_of_nat.simps [simp del]

definition string_of_int :: "int \<Rightarrow> string" where
  "string_of_int i = (if i < 0 then CHR ''-'' # string_of_nat (nat (- i)) else string_of_nat (nat i))"

text \<open>An array index is the canonical decimal numeral of a number below \<open>2\<^sup>3\<^sup>2 - 1\<close>.\<close>

definition is_digit :: "char \<Rightarrow> bool" where
  "is_digit c = (c \<in> set ''0123456789'')"

definition decimal_value :: "string \<Rightarrow> nat" where
  "decimal_value k = foldl (\<lambda>acc c. 10 * acc + (of_char c - 48)) 0 k"

definition array_index :: "string \<Rightarrow> nat option" where
  "array_index k =
     (if k \<noteq> [] \<and> list_all is_digit k \<and> string_of_nat (decimal_value k) = k
         \<and> decimal_value k < 4294967295
      then Some (decimal_value k) else None)"

subsection \<open>Writing properties\<close>

text \<open>A new property whose name is the array index \<open>i\<close> goes behind the indices
  below \<open>i\<close> and in front of everything else.\<close>

fun insert_index :: "nat \<Rightarrow> string \<times> 'a \<Rightarrow> (string \<times> 'a) list \<Rightarrow> (string \<times> 'a) list" where
  "insert_index i e [] = [e]"
| "insert_index i e (p # ps) =
     (case array_index (fst p) of
        Some j \<Rightarrow> if j < i then p # insert_index i e ps else e # p # ps
      | None \<Rightarrow> e # p # ps)"

text \<open>Creating or overwriting an own property, as an object literal and the spread
  \<^verbatim>\<open>{...obj}\<close> do: an existing name keeps its place and takes the new value, a new
  name is placed by the enumeration order.\<close>

definition js_define :: "string \<Rightarrow> 'a \<Rightarrow> (string \<times> 'a) list \<Rightarrow> (string \<times> 'a) list" where
  "js_define k v obj =
     (if k \<in> set (map fst obj) then AList.update k v obj
      else (case array_index k of
              Some i \<Rightarrow> insert_index i (k, v) obj
            | None \<Rightarrow> obj @ [(k, v)]))"

text \<open>
  The assignment \<^verbatim>\<open>obj[k] = v\<close>, which \<^verbatim>\<open>Object.assign\<close> performs as well. It differs
  from creating a property for the name \<^verbatim>\<open>__proto__\<close>: unless the object has an own
  property of that name, the assignment calls the inherited setter, which creates no
  own property (it replaces the prototype of the object when \<^verbatim>\<open>v\<close> is an object or
  null). The model keeps the own properties only, so the replaced prototype is not
  represented.
\<close>

definition js_set :: "string \<Rightarrow> 'a \<Rightarrow> (string \<times> 'a) list \<Rightarrow> (string \<times> 'a) list" where
  "js_set k v obj =
     (if k = ''__proto__'' \<and> k \<notin> set (map fst obj) then obj else js_define k v obj)"

text \<open>The spread \<^verbatim>\<open>{...obj}\<close>: every own enumerable property is created on a fresh
  object.\<close>

definition spread :: "jsobject \<Rightarrow> jsobject" where
  "spread obj = fold (\<lambda>(k, v) t. js_define k v t) obj []"

text \<open>
  \<^verbatim>\<open>Object.assign(target, source)\<close>: every own enumerable property of the source is
  assigned to the target, in the source's order.
\<close>

definition assign_entries :: "jsobject \<Rightarrow> jsobject \<Rightarrow> jsobject" where
  "assign_entries target src = fold (\<lambda>(k, v) t. js_set k v t) src target"

text \<open>
  The own enumerable properties that \<^verbatim>\<open>Object.assign\<close> reads from a source value that
  passed \<^verbatim>\<open>typeof v === 'object' && v !== null\<close>: an object's entries, an array's
  elements under their indices.
\<close>

definition array_entries :: "jsval list \<Rightarrow> jsobject" where
  "array_entries xs = map (\<lambda>i. (string_of_nat i, xs ! i)) [0..<length xs]"

fun is_non_null_object :: "jsval \<Rightarrow> bool" where
  "is_non_null_object (JObj _) = True"
| "is_non_null_object (JArr _) = True"
| "is_non_null_object _ = False"

fun own_entries :: "jsval \<Rightarrow> jsobject" where
  "own_entries (JObj ps) = ps"
| "own_entries (JArr xs) = array_entries xs"
| "own_entries _ = []"

section \<open>The runtime\<close>

text \<open>
  \<^verbatim>\<open>Date.now()\<close> and \<^verbatim>\<open>uuidv4()\<close> are read from two streams fixed in advance; the
  world counts how many readings were taken and carries the state of the external
  collaborators (vault, module cache, model adapters). The library functions the
  sources call are parameters as well: \<^verbatim>\<open>CryptoJS.SHA256(s).toString()\<close>; the
  constructor \<^verbatim>\<open>new RegExp(p)\<close>, which is \<open>None\<close> when \<^verbatim>\<open>p\<close> is not a regular expression
  and the constructor throws a SyntaxError, and otherwise gives the expression with its
  \<^verbatim>\<open>re.test(s)\<close> and, built with the flag \<^verbatim>\<open>g\<close>, its \<^verbatim>\<open>s.replace(re, r)\<close>; and the text
  \<^verbatim>\<open>JSON.stringify\<close> produces for a value it can serialise.
\<close>

record compiled_regexp =
  re_test :: "string \<Rightarrow> bool"
  re_replace_all :: "string \<Rightarrow> string \<Rightarrow> string"

record runtime =
  clock :: "nat \<Rightarrow> int"
  uuid :: "nat \<Rightarrow> string"
  sha256 :: "string \<Rightarrow> string"
  new_RegExp :: "string \<Rightarrow> compiled_regexp option"
  json_text :: "jsval \<Rightarrow> string"

record 'w world =
  ticks :: nat
  uuids :: nat
  ext :: 'w

definition Date_now :: "runtime \<Rightarrow> 'w world \<Rightarrow> int \<times> 'w world" where
  "Date_now rt w = (clock rt (ticks w), w\<lparr>ticks := Suc (ticks w)\<rparr>)"

definition uuidv4 :: "runtime \<Rightarrow> 'w world \<Rightarrow> string \<times> 'w world" where
  "uuidv4 rt w = (uuid rt (uuids w), w\<lparr>uuids := Suc (uuids w)\<rparr>)"

section \<open>The prompt module (prompt-module.ts)\<close>

subsection \<open>Types\<close>

datatype param_type = TString | TNumber | TBoolean | TArray | TObject

text \<open>\<^verbatim>\<open>InputParameter\<close>: the fields the module reads. An absent \<^verbatim>\<open>default\<close> is
  \<open>JUndefined\<close>.\<close>

record InputParameter =
  ptype :: param_type
  required :: bool
  default_value :: jsval
  minLength :: "int option"
  maxLength :: "int option"
  pattern :: "string option"
  enum :: "string list option"
  minimum :: "int option"
  maximum :: "int option"
  minItems :: "int option"
  maxItems :: "int option"

record PromptDefinition =
  def_id :: string
  def_name :: string
  def_version :: string
  def_author :: string
  def_inputs :: "(string \<times> InputParameter) list"
  template :: string
  def_dependencies :: "string list option"

datatype access_type = Public | TokenGated | NftGated | Private | Custom

record AccessPolicy =
  policy_type :: access_type
  tokenAddress :: "string option"
  minimumBalance :: "string option"
  whitelist :: "string list option"
  maxUsagePerDay :: "int option"
  expirationDate :: "int option"

record PromptMetadata =
  md_id :: string
  md_name :: string
  md_author :: string
  md_createdAt :: int
  md_updatedAt :: int
  md_executionCount :: int
  md_accessPolicy :: AccessPolicy

text \<open>The private fields of \<^verbatim>\<open>class PromptModule\<close>.\<close>

record PromptModule =
  definition_of :: PromptDefinition
  metadata_of :: PromptMetadata
  executionCount :: int
  lastExecutionTime :: "int option"

record ValidationResult =
  valid :: bool
  errors :: "string list"
  warnings :: "string list"

text \<open>The \<^verbatim>\<open>details\<close> of a reported error: the \<^verbatim>\<open>details\<close> a \<^verbatim>\<open>PromptHubMCPError\<close>
  was built with, or the caught error object itself.\<close>

datatype error_details = DetailsValue jsval | DetailsError js_error

record response_error =
  code :: ErrorCodes
  message :: string
  details :: error_details

record ModuleResponse =
  resp_success :: bool
  resp_output :: jsval
  resp_executionId :: string
  resp_promptId :: string
  resp_version :: string
  resp_metadata_executionTime :: int
  resp_timestamp :: int
  resp_error :: "response_error option"
  resp_executionTime :: int
  resp_signature :: "string option"

subsection \<open>getMetadata\<close>

text \<open>\<^verbatim>\<open>this.lastExecutionTime || this.metadata.updatedAt\<close>: an unset or zero time gives
  way to the stored one.\<close>

definition getMetadata :: "PromptModule \<Rightarrow> PromptMetadata" where
  "getMetadata m =
     (metadata_of m)\<lparr>
        md_executionCount := executionCount m,
        md_updatedAt := (case lastExecutionTime m of
                           None \<Rightarrow> md_updatedAt (metadata_of m)
                         | Some t \<Rightarrow> if t = 0 then md_updatedAt (metadata_of m) else t)\<rparr>"

subsection \<open>validateInput\<close>

text \<open>A numeric bound guarded by its own truthiness, as in
  \<^verbatim>\<open>param.minLength && value.length < param.minLength\<close>: an absent or zero bound never fires.\<close>

definition truthy_bound :: "int option \<Rightarrow> (int \<Rightarrow> bool) \<Rightarrow> bool" where
  "truthy_bound b P = (case b of None \<Rightarrow> False | Some n \<Rightarrow> n \<noteq> 0 \<and> P n)"

definition the_bound :: "int option \<Rightarrow> string" where
  "the_bound b = (case b of None \<Rightarrow> ''undefined'' | Some n \<Rightarrow> string_of_int n)"

fun join :: "string \<Rightarrow> string list \<Rightarrow> string" where
  "join sep [] = []"
| "join sep [x] = x"
| "join sep (x # y # ys) = x @ sep @ join sep (y # ys)"

definition param_msg :: "string \<Rightarrow> string \<Rightarrow> string" where
  "param_msg key rest = ''Parameter '' @ [CHR 0x27] @ key @ [CHR 0x27] @ rest"

text \<open>The checks of a string value after the \<^verbatim>\<open>typeof\<close> test, in the order of the source.\<close>

definition validate_string :: "runtime \<Rightarrow> string \<Rightarrow> string \<Rightarrow> InputParameter
      \<Rightarrow> js_error + string option" where
  "validate_string rt key s param =
     (if truthy_bound (minLength param) (\<lambda>n. int (length s) < n)
      then Inr (Some (param_msg key ('' must be at least '' @ the_bound (minLength param) @ '' characters'')))
      else if truthy_bound (maxLength param) (\<lambda>n. int (length s) > n)
      then Inr (Some (param_msg key ('' must be at most '' @ the_bound (maxLength param) @ '' characters'')))
      else (case (case pattern param of
                    None \<Rightarrow> Inr True
                  | Some p \<Rightarrow> if p = [] then Inr True
                              else (case new_RegExp rt p of
                                      None \<Rightarrow> Inl (SyntaxError ''Invalid regular expression'')
                                    | Some re \<Rightarrow> Inr (re_test re s))) of
              Inl e \<Rightarrow> Inl e
            | Inr False \<Rightarrow> Inr (Some (param_msg key '' does not match required pattern''))
            | Inr True \<Rightarrow>
                (case enum param of
                   None \<Rightarrow> Inr None
                 | Some vs \<Rightarrow>
                     if s \<notin> set vs
                     then Inr (Some (param_msg key ('' must be one of: '' @ join '', '' vs)))
                     else Inr None)))"

fun validateParameterValue :: "runtime \<Rightarrow> string \<Rightarrow> jsval \<Rightarrow> InputParameter
      \<Rightarrow> js_error + string option" where
  "validateParameterValue rt key v param =
     (case ptype param of
        TString \<Rightarrow>
          (case v of
             JStr s \<Rightarrow> validate_string rt key s param
           | _ \<Rightarrow> Inr (Some (param_msg key '' must be a string'')))
      | TNumber \<Rightarrow>
          (case v of
             JNum x \<Rightarrow>
               (case minimum param of
                  Some lo \<Rightarrow>
                    if x < lo then Inr (Some (param_msg key ('' must be at least '' @ string_of_int lo)))
                    else (case maximum param of
                            Some hi \<Rightarrow>
                              if x > hi
                              then Inr (Some (param_msg key ('' must be at most '' @ string_of_int hi)))
                              else Inr None
                          | None \<Rightarrow> Inr None)
                | None \<Rightarrow>
                    (case maximum param of
                       Some hi \<Rightarrow>
                         if x > hi
                         then Inr (Some (param_msg key ('' must be at most '' @ string_of_int hi)))
                         else Inr None
                     | None \<Rightarrow> Inr None))
           | _ \<Rightarrow> Inr (Some (param_msg key '' must be a number'')))
      | TBoolean \<Rightarrow>
          (case v of
             JBool b \<Rightarrow> Inr None
           | _ \<Rightarrow> Inr (Some (param_msg key '' must be a boolean'')))
      | TArray \<Rightarrow>
          (case v of
             JArr xs \<Rightarrow>
               if truthy_bound (minItems param) (\<lambda>n. int (length xs) < n)
               then Inr (Some (param_msg key ('' must have at least '' @ the_bound (minItems param) @ '' items'')))
               else if truthy_bound (maxItems param) (\<lambda>n. int (length xs) > n)
               then Inr (Some (param_msg key ('' must have at most '' @ the_bound (maxItems param) @ '' items'')))
               else Inr None
           | _ \<Rightarrow> Inr (Some (param_msg key '' must be an array'')))
      | TObject \<Rightarrow>
          (case v of
             JObj ps \<Rightarrow> Inr None
           | _ \<Rightarrow> Inr (Some (param_msg key '' must be an object''))))"

definition missing_msg :: "string \<Rightarrow> string" where
  "missing_msg key = ''Required parameter '' @ [CHR 0x27] @ key @ [CHR 0x27] @ '' is missing''"

definition unexpected_msg :: "string \<Rightarrow> string" where
  "unexpected_msg key = ''Unexpected parameter '' @ [CHR 0x27] @ key @ [CHR 0x27] @ '' will be ignored''"

text \<open>The first loop of \<^verbatim>\<open>validateInput\<close>, over \<^verbatim>\<open>Object.entries(this.definition.inputs)\<close>;
  the second argument is the array \<^verbatim>\<open>errors\<close> so far.\<close>

fun check_declared :: "runtime \<Rightarrow> jsobject \<Rightarrow> (string \<times> InputParameter) list \<Rightarrow> string list
      \<Rightarrow> js_error + string list" where
  "check_declared rt input [] errs = Inr errs"
| "check_declared rt input ((key, param) # rest) errs =
     (if required param \<and> \<not> has_key key input
      then check_declared rt input rest (errs @ [missing_msg key])
      else if has_key key input
      then (case validateParameterValue rt key (js_get input key) param of
              Inl e \<Rightarrow> Inl e
            | Inr (Some validationError) \<Rightarrow> check_declared rt input rest (errs @ [validationError])
            | Inr None \<Rightarrow> check_declared rt input rest errs)
      else check_declared rt input rest errs)"

text \<open>The second loop, over \<^verbatim>\<open>Object.keys(input)\<close>, with its test
  \<^verbatim>\<open>!(key in this.definition.inputs)\<close>.\<close>

fun check_unexpected :: "(string \<times> InputParameter) list \<Rightarrow> string list \<Rightarrow> string list
      \<Rightarrow> string list" where
  "check_unexpected declared [] warns = warns"
| "check_unexpected declared (key # rest) warns =
     (if \<not> has_key key declared
      then check_unexpected declared rest (warns @ [unexpected_msg key])
      else check_unexpected declared rest warns)"

definition validateInput :: "runtime \<Rightarrow> PromptDefinition \<Rightarrow> jsobject
      \<Rightarrow> js_error + ValidationResult" where
  "validateInput rt defn input =
     (case check_declared rt input (def_inputs defn) [] of
        Inl e \<Rightarrow> Inl e
      | Inr errs \<Rightarrow>
          Inr \<lparr>valid = (length errs = 0),
               errors = errs,
               warnings = check_unexpected (def_inputs defn) (map fst input) []\<rparr>)"

subsection \<open>checkAccess\<close>

definition access_denied :: "string \<Rightarrow> js_error" where
  "access_denied msg = PromptHubMCPError ACCESS_DENIED msg JUndefined"

text \<open>The test after the \<^verbatim>\<open>switch\<close>:
  \<^verbatim>\<open>policy.expirationDate && Date.now() > policy.expirationDate\<close>. The clock is read only
  when the date is set and not zero.\<close>

definition check_expiration :: "runtime \<Rightarrow> AccessPolicy \<Rightarrow> 'w world
      \<Rightarrow> (js_error + unit) \<times> 'w world" where
  "check_expiration rt policy w =
     (case expirationDate policy of
        None \<Rightarrow> (Inr (), w)
      | Some e \<Rightarrow>
          if e = 0 then (Inr (), w)
          else (let (now, w') = Date_now rt w in
                if now > e
                then (Inl (access_denied ''Access to this prompt has expired''), w')
                else (Inr (), w')))"

definition checkAccess :: "runtime \<Rightarrow> PromptMetadata \<Rightarrow> string \<Rightarrow> 'w world
      \<Rightarrow> (js_error + unit) \<times> 'w world" where
  "checkAccess rt md caller' w =
     (let policy = md_accessPolicy md in
      case policy_type policy of
        Public \<Rightarrow> (Inr (), w)
      | Private \<Rightarrow>
          if caller' \<noteq> md_author md
          then (Inl (access_denied
                  ''This prompt is private and can only be accessed by the author''), w)
          else (Inr (), w)
      | TokenGated \<Rightarrow> check_expiration rt policy w
      | NftGated \<Rightarrow> check_expiration rt policy w
      | Custom \<Rightarrow>
          (case whitelist policy of
             None \<Rightarrow> check_expiration rt policy w
           | Some wl \<Rightarrow>
               if caller' \<notin> set wl
               then (Inl (access_denied ''Caller is not in the whitelist for this prompt''), w)
               else check_expiration rt policy w))"

subsection \<open>Input preparation, rendering, the mock model call, the signature\<close>

fun prepare_loop :: "jsobject \<Rightarrow> (string \<times> InputParameter) list \<Rightarrow> jsobject \<Rightarrow> jsobject" where
  "prepare_loop input [] executionInputs = executionInputs"
| "prepare_loop input ((key, param) # rest) executionInputs =
     (if has_key key input
      then prepare_loop input rest (js_set key (js_get input key) executionInputs)
      else if default_value param \<noteq> JUndefined
      then prepare_loop input rest (js_set key (default_value param) executionInputs)
      else prepare_loop input rest executionInputs)"

definition prepareExecutionInputs :: "PromptDefinition \<Rightarrow> jsobject \<Rightarrow> jsobject" where
  "prepareExecutionInputs defn input = prepare_loop input (def_inputs defn) []"

text \<open>\<^verbatim>\<open>resolveDependencies\<close> returns the empty object on both of its paths.\<close>

definition resolveDependencies :: "PromptDefinition \<Rightarrow> jsobject \<Rightarrow> jsobject \<Rightarrow> jsobject" where
  "resolveDependencies defn inputs' context =
     (case def_dependencies defn of
        None \<Rightarrow> []
      | Some ds \<Rightarrow> if length ds = 0 then [] else [])"

text \<open>\<^verbatim>\<open>JSON.stringify\<close> throws a TypeError on a BigInt anywhere in the value, and
  returns \<^verbatim>\<open>undefined\<close> (here \<open>None\<close>) for \<^verbatim>\<open>undefined\<close> and for a function.\<close>

fun is_function :: "jsval \<Rightarrow> bool" where
  "is_function (JFunction f) = True"
| "is_function v = False"

fun serialisable :: "jsval \<Rightarrow> bool" where
  "serialisable (JBigInt n) = False"
| "serialisable (JArr xs) = list_all serialisable xs"
| "serialisable (JObj ps) = list_all (\<lambda>p. serialisable (snd p)) ps"
| "serialisable v = True"

definition JSON_stringify :: "runtime \<Rightarrow> jsval \<Rightarrow> js_error + string option" where
  "JSON_stringify rt v =
     (if \<not> serialisable v then Inl (TypeError ''Do not know how to serialize a BigInt'')
      else if v = JUndefined \<or> is_function v then Inr None
      else Inr (Some (json_text rt v)))"

text \<open>One step of the two loops of \<^verbatim>\<open>renderTemplate\<close>; an \<^verbatim>\<open>undefined\<close> replacement is
  inserted as the text \<^verbatim>\<open>undefined\<close>.\<close>

definition render_entry :: "runtime \<Rightarrow> string \<times> jsval \<Rightarrow> string \<Rightarrow> js_error + string" where
  "render_entry rt entry rendered =
     (let placeholder = ''{{'' @ fst entry @ ''}}'' in
      case (case snd entry of
              JStr s \<Rightarrow> Inr (Some s)
            | v \<Rightarrow> JSON_stringify rt v) of
        Inl e \<Rightarrow> Inl e
      | Inr stringValue \<Rightarrow>
          (case new_RegExp rt placeholder of
             None \<Rightarrow> Inl (SyntaxError ''Invalid regular expression'')
           | Some re \<Rightarrow>
               Inr (re_replace_all re rendered
                      (case stringValue of None \<Rightarrow> ''undefined'' | Some s \<Rightarrow> s))))"

fun render_loop :: "runtime \<Rightarrow> jsobject \<Rightarrow> string \<Rightarrow> js_error + string" where
  "render_loop rt [] rendered = Inr rendered"
| "render_loop rt (entry # rest) rendered =
     (case render_entry rt entry rendered of
        Inl e \<Rightarrow> Inl e
      | Inr r \<Rightarrow> render_loop rt rest r)"

definition renderTemplate :: "runtime \<Rightarrow> PromptDefinition \<Rightarrow> jsobject \<Rightarrow> jsobject
      \<Rightarrow> js_error + string" where
  "renderTemplate rt defn inputs' deps =
     (case render_loop rt inputs' (template defn) of
        Inl e \<Rightarrow> Inl e
      | Inr rendered \<Rightarrow> render_loop rt deps rendered)"

text \<open>\<^verbatim>\<open>executePrompt\<close> of the module: the mock response.\<close>

definition executePrompt :: "runtime \<Rightarrow> PromptDefinition \<Rightarrow> string \<Rightarrow> jsobject \<Rightarrow> string
      \<Rightarrow> 'w world \<Rightarrow> jsval \<times> 'w world" where
  "executePrompt rt defn renderedPrompt context executionId w =
     (let (now, w') = Date_now rt w in
      (JObj [(''text'', JStr (''Mock response for prompt: '' @ def_name defn)),
             (''renderedPrompt'', JStr renderedPrompt),
             (''executionId'', JStr executionId),
             (''timestamp'', JNum now)], w'))"

text \<open>\<^verbatim>\<open>CryptoJS.SHA256(JSON.stringify(v)).toString()\<close>; the hasher appends nothing for
  an \<^verbatim>\<open>undefined\<close> message.\<close>

definition hash_json :: "runtime \<Rightarrow> jsval \<Rightarrow> js_error + string" where
  "hash_json rt v =
     (case JSON_stringify rt v of
        Inl e \<Rightarrow> Inl e
      | Inr None \<Rightarrow> Inr (sha256 rt [])
      | Inr (Some s) \<Rightarrow> Inr (sha256 rt s))"

definition generateExecutionSignature :: "runtime \<Rightarrow> PromptDefinition \<Rightarrow> string \<Rightarrow> jsobject
      \<Rightarrow> jsval \<Rightarrow> jsobject \<Rightarrow> js_error + string" where
  "generateExecutionSignature rt defn executionId input out context =
     (case hash_json rt (JObj input) of
        Inl e \<Rightarrow> Inl e
      | Inr inputHash \<Rightarrow>
          (case hash_json rt out of
             Inl e \<Rightarrow> Inl e
           | Inr outputHash \<Rightarrow>
               hash_json rt (JObj [(''executionId'', JStr executionId),
                                   (''promptId'', JStr (def_id defn)),
                                   (''version'', JStr (def_version defn)),
                                   (''inputHash'', JStr inputHash),
                                   (''outputHash'', JStr outputHash),
                                   (''caller'', js_get context ''caller''),
                                   (''timestamp'', js_get context ''timestamp'')])))"

subsection \<open>The execution context schema\<close>

text \<open>
  \<^verbatim>\<open>ExecutionContextSchema.safeParse(context)\<close> inspects a runtime value, so the module
  receives the context as an object of arbitrary properties. The schema is
  \<^verbatim>\<open>z.object({caller: z.string(), modelProvider: z.string().optional(), timestamp:
  z.number(), previousOutputs: z.record(z.any()).optional(), requestId: z.string(), chainId:
  z.string().optional(), blockHeight: z.number().optional()})\<close>. The issues are
  represented by the names of the offending properties, in the schema's order; the parse
  succeeds when there are none.
\<close>

fun is_string :: "jsval \<Rightarrow> bool" where
  "is_string (JStr s) = True"
| "is_string v = False"

fun is_number :: "jsval \<Rightarrow> bool" where
  "is_number (JNum n) = True"
| "is_number v = False"

fun is_record :: "jsval \<Rightarrow> bool" where
  "is_record (JObj ps) = True"
| "is_record v = False"

definition optional :: "(jsval \<Rightarrow> bool) \<Rightarrow> jsval \<Rightarrow> bool" where
  "optional P v = (v = JUndefined \<or> P v)"

definition ExecutionContextSchema :: "(string \<times> (jsval \<Rightarrow> bool)) list" where
  "ExecutionContextSchema =
     [(''caller'', is_string),
      (''modelProvider'', optional is_string),
      (''timestamp'', is_number),
      (''previousOutputs'', optional is_record),
      (''requestId'', is_string),
      (''chainId'', optional is_string),
      (''blockHeight'', optional is_number)]"

definition safeParse_issues :: "(string \<times> (jsval \<Rightarrow> bool)) list \<Rightarrow> jsobject \<Rightarrow> string list" where
  "safeParse_issues schema obj = map fst (filter (\<lambda>(k, P). \<not> P (js_get obj k)) schema)"

subsection \<open>execute\<close>

text \<open>The string held by a property that has passed \<^verbatim>\<open>z.string()\<close>.\<close>

fun string_value :: "jsval \<Rightarrow> string" where
  "string_value (JStr s) = s"
| "string_value v = []"

text \<open>
  The body of the \<^verbatim>\<open>try\<close> block. A throw is \<open>Inl\<close>; the module and the world are
  returned in both cases, since what was written before a throw stays written.
\<close>

definition execute_try :: "runtime \<Rightarrow> jsobject \<Rightarrow> jsobject \<Rightarrow> int \<Rightarrow> string \<Rightarrow> PromptModule
      \<Rightarrow> 'w world \<Rightarrow> (js_error + ModuleResponse) \<times> PromptModule \<times> 'w world" where
  "execute_try rt input context startTime executionId m w =
     (let defn = definition_of m;
          issues = safeParse_issues ExecutionContextSchema context in
      if issues \<noteq> []
      then (Inl (PromptHubMCPError VALIDATION_ERROR ''Invalid execution context''
                   (JArr (map JStr issues))), m, w)
      else (case validateInput rt defn input of
              Inl e \<Rightarrow> (Inl e, m, w)
            | Inr inputValidation \<Rightarrow>
                if \<not> valid inputValidation
                then (Inl (PromptHubMCPError INVALID_INPUT ''Input validation failed''
                             (JArr (map JStr (errors inputValidation)))), m, w)
                else (case checkAccess rt (metadata_of m)
                             (string_value (js_get context ''caller'')) w of
                        (Inl e, w1) \<Rightarrow> (Inl e, m, w1)
                      | (Inr u, w1) \<Rightarrow>
                          (let executionInputs = prepareExecutionInputs defn input;
                               resolvedDependencies =
                                 resolveDependencies defn executionInputs context
                           in case renderTemplate rt defn executionInputs resolvedDependencies of
                                Inl e \<Rightarrow> (Inl e, m, w1)
                              | Inr renderedPrompt \<Rightarrow>
                                  (let (out, w2) =
                                         executePrompt rt defn renderedPrompt context executionId w1;
                                       (t, w3) = Date_now rt w2;
                                       m' = m\<lparr>executionCount := executionCount m + 1,
                                              lastExecutionTime := Some t\<rparr>;
                                       (t', w4) = Date_now rt w3;
                                       executionTime = t' - startTime
                                   in case generateExecutionSignature rt defn executionId input
                                             out context of
                                        Inl e \<Rightarrow> (Inl e, m', w4)
                                      | Inr sig \<Rightarrow>
                                          (Inr \<lparr>resp_success = True,
                                                resp_output = out,
                                                resp_executionId = executionId,
                                                resp_promptId = def_id defn,
                                                resp_version = def_version defn,
                                                resp_metadata_executionTime = executionTime,
                                                resp_timestamp = startTime,
                                                resp_error = None,
                                                resp_executionTime = executionTime,
                                                resp_signature = Some sig\<rparr>, m', w4))))))"

text \<open>The two returns of the \<^verbatim>\<open>catch\<close> block.\<close>

definition caught_error :: "js_error \<Rightarrow> response_error" where
  "caught_error e =
     (case e of
        PromptHubMCPError c msg d \<Rightarrow> \<lparr>code = c, message = msg, details = DetailsValue d\<rparr>
      | TypeError msg \<Rightarrow> \<lparr>code = EXECUTION_FAILED, message = msg, details = DetailsError e\<rparr>
      | SyntaxError msg \<Rightarrow> \<lparr>code = EXECUTION_FAILED, message = msg, details = DetailsError e\<rparr>)"

definition execute :: "runtime \<Rightarrow> jsobject \<Rightarrow> jsobject \<Rightarrow> PromptModule \<Rightarrow> 'w world
      \<Rightarrow> ModuleResponse \<times> PromptModule \<times> 'w world" where
  "execute rt input context m w =
     (let (startTime, w1) = Date_now rt w;
          (executionId, w2) = uuidv4 rt w1
      in case execute_try rt input context startTime executionId m w2 of
           (Inr response, m', w') \<Rightarrow> (response, m', w')
         | (Inl e, m', w') \<Rightarrow>
             (let (t, w'') = Date_now rt w';
                  executionTime = t - startTime
              in (\<lparr>resp_success = False,
                   resp_output = JNull,
                   resp_executionId = executionId,
                   resp_promptId = def_id (definition_of m'),
                   resp_version = def_version (definition_of m'),
                   resp_metadata_executionTime = executionTime,
                   resp_timestamp = startTime,
                   resp_error = Some (caught_error e),
                   resp_executionTime = executionTime,
                   resp_signature = None\<rparr>, m', w'')))"

section \<open>The DAG orchestrator (prompt-router.ts)\<close>

record DAGNode =
  node_id :: string
  promptId :: string
  version :: "string option"
  inputs :: jsobject
  dependencies :: "string list"

record DAGEdge =
  edge_from :: string
  edge_to :: string

record DAGDefinition =
  dag_id :: string
  dag_name :: string
  dag_description :: string
  nodes :: "DAGNode list"
  edges :: "DAGEdge list"

subsection \<open>topologicalSort\<close>

text \<open>
  \<^verbatim>\<open>nodeMap = new Map(dag.nodes.map(n => [n.id, n]))\<close>: of two nodes with one id the
  later one stays in the map.
\<close>

definition nodeMap :: "DAGNode list \<Rightarrow> string \<Rightarrow> DAGNode option" where
  "nodeMap ns = map_of (rev (map (\<lambda>n. (node_id n, n)) ns))"

definition cycle_error :: js_error where
  "cycle_error = PromptHubMCPError VALIDATION_ERROR ''DAG contains cycles'' JUndefined"

text \<open>
  The closure \<^verbatim>\<open>visit\<close> of \<^verbatim>\<open>topologicalSort\<close>. The sets \<^verbatim>\<open>visited\<close> and the array
  \<^verbatim>\<open>result\<close> are threaded as a pair. The set \<^verbatim>\<open>temp\<close> holds exactly the ids whose
  \<^verbatim>\<open>visit\<close> is in progress (\<^verbatim>\<open>temp.add\<close> on entry, \<^verbatim>\<open>temp.delete\<close> before the normal
  return, and a throw abandons the whole sort), so it is passed down the recursion.
  A missing map entry makes \<^verbatim>\<open>node.dependencies\<close> a TypeError.
  \<^verbatim>\<open>result.unshift(node)\<close> puts the finished node at the front of \<^verbatim>\<open>result\<close>.
\<close>

function visit :: "DAGNode list \<Rightarrow> string list \<Rightarrow> string \<Rightarrow> string list \<times> DAGNode list
      \<Rightarrow> js_error + (string list \<times> DAGNode list)"
  and visit_deps :: "DAGNode list \<Rightarrow> string list \<Rightarrow> string list \<Rightarrow> string list \<times> DAGNode list
      \<Rightarrow> js_error + (string list \<times> DAGNode list)"
where
  "visit ns temp nodeId (visited, result) =
     (if nodeId \<in> set temp then Inl cycle_error
      else if nodeId \<in> set visited then Inr (visited, result)
      else (case nodeMap ns nodeId of
              None \<Rightarrow> Inl (TypeError ''Cannot read properties of undefined'')
            | Some node \<Rightarrow>
                (case visit_deps ns (nodeId # temp) (dependencies node) (visited, result) of
                   Inl e \<Rightarrow> Inl e
                 | Inr (visited', result') \<Rightarrow> Inr (nodeId # visited', node # result'))))"
| "visit_deps ns temp [] st = Inr st"
| "visit_deps ns temp (dep # deps) st =
     (case visit ns temp dep st of
        Inl e \<Rightarrow> Inl e
      | Inr st' \<Rightarrow> visit_deps ns temp deps st')"
  by pat_completeness auto

termination
proof (relation "inv_image (less_than <*lex*> less_than)
    (\<lambda>x. case x of
        Inl (ns, temp, nodeId, st) \<Rightarrow> (card (set (map node_id ns) - set temp), 0)
      | Inr (ns, temp, deps, st) \<Rightarrow> (card (set (map node_id ns) - set temp), Suc (length deps)))",
    goal_cases)
  case 1
  show ?case by (intro wf_inv_image wf_lex_prod wf_less_than)
next
  case (2 ns temp nodeId visited result node)
  from 2(3) have "nodeId \<in> set (map node_id ns)"
    by (auto simp: nodeMap_def dest!: map_of_SomeD)
  with 2(1) have "card (set (map node_id ns) - set (nodeId # temp))
      < card (set (map node_id ns) - set temp)"
    by (intro psubset_card_mono) auto
  then show ?case by simp
next
  case 3
  then show ?case by simp
next
  case 4
  then show ?case by simp
qed

text \<open>The loop \<^verbatim>\<open>for (const node of dag.nodes) if (!visited.has(node.id)) visit(node.id)\<close>.\<close>

fun visit_all :: "DAGNode list \<Rightarrow> DAGNode list \<Rightarrow> string list \<times> DAGNode list
      \<Rightarrow> js_error + (string list \<times> DAGNode list)" where
  "visit_all ns [] st = Inr st"
| "visit_all ns (node # rest) (visited, result) =
     (if node_id node \<notin> set visited
      then (case visit ns [] (node_id node) (visited, result) of
              Inl e \<Rightarrow> Inl e
            | Inr st' \<Rightarrow> visit_all ns rest st')
      else visit_all ns rest (visited, result))"

definition topologicalSort :: "DAGDefinition \<Rightarrow> js_error + DAGNode list" where
  "topologicalSort dag =
     (case visit_all (nodes dag) (nodes dag) ([], []) of
        Inl e \<Rightarrow> Inl e
      | Inr (visited, result) \<Rightarrow> Inr result)"

text \<open>\<^verbatim>\<open>hasCycles\<close>: any throw of the sort counts as a cycle.\<close>

definition hasCycles :: "DAGDefinition \<Rightarrow> bool" where
  "hasCycles dag = (case topologicalSort dag of Inl e \<Rightarrow> True | Inr r \<Rightarrow> False)"

subsection \<open>validateDAG\<close>

text \<open>The nested loops that look for a dependency naming no node: the first
  offending pair (node id, dependency) in iteration order.\<close>

fun first_dangling :: "string list \<Rightarrow> DAGNode list \<Rightarrow> (string \<times> string) option" where
  "first_dangling nodeIds [] = None"
| "first_dangling nodeIds (node # rest) =
     (case find (\<lambda>dep. dep \<notin> set nodeIds) (dependencies node) of
        Some dep \<Rightarrow> Some (node_id node, dep)
      | None \<Rightarrow> first_dangling nodeIds rest)"

text \<open>\<^verbatim>\<open>nodeIds.size\<close> is the number of distinct ids.\<close>

definition validateDAG :: "DAGDefinition \<Rightarrow> js_error + unit" where
  "validateDAG dag =
     (let nodeIds = map node_id (nodes dag) in
      if length (remdups nodeIds) \<noteq> length (nodes dag)
      then Inl (PromptHubMCPError VALIDATION_ERROR ''DAG contains duplicate node IDs'' JUndefined)
      else (case first_dangling nodeIds (nodes dag) of
              Some (n, dep) \<Rightarrow>
                Inl (PromptHubMCPError VALIDATION_ERROR
                       (''Node '' @ n @ '' depends on non-existent node '' @ dep) JUndefined)
            | None \<Rightarrow>
                if hasCycles dag then Inl cycle_error else Inr ()))"

subsection \<open>Results of a prompt execution\<close>

record exec_error =
  err_code :: ErrorCodes
  err_message :: string
  err_details :: jsval

record PromptExecutionResult =
  success :: bool
  output_value :: jsval
  meta_promptId :: string
  meta_version :: string
  meta_executionId :: string
  meta_timestamp :: int
  meta_executionTime :: int
  signature :: "string option"
  error :: "exec_error option"

type_synonym node_results = "(string \<times> PromptExecutionResult) list"

record ExecutionContext =
  caller :: string
  modelProvider :: "string option"
  timestamp :: int
  requestId :: string
  previousOutputs :: node_results

text \<open>The optional \<^verbatim>\<open>Partial<ExecutionContext>\<close> that \<^verbatim>\<open>executeDag\<close> reads.\<close>

record PartialContext =
  partial_caller :: "string option"
  partial_modelProvider :: "string option"

text \<open>What the \<^verbatim>\<open>error\<close> field of a DAG result holds: the failing node's own
  \<^verbatim>\<open>error\<close> field, or a caught exception.\<close>

datatype dag_failure = NodeFailure "exec_error option" | Thrown js_error

record DAGError =
  nodeId :: string
  failure :: dag_failure

record DAGExecutionResult =
  dag_success :: bool
  results :: node_results
  executionOrder :: "string list"
  totalExecutionTime :: int
  dag_error :: "DAGError option"

subsection \<open>prepareNodeInputs\<close>

text \<open>The body of the loop over \<^verbatim>\<open>node.dependencies\<close>. Where \<^verbatim>\<open>previousResults\<close>
  has no own property \<^verbatim>\<open>dep\<close>, the read gives \<^verbatim>\<open>undefined\<close> or a member of
  \<^verbatim>\<open>Object.prototype\<close>, none of which has a \<^verbatim>\<open>success\<close> property, and nothing is
  merged. (This is the read on an object whose prototype is \<^verbatim>\<open>Object.prototype\<close>; see
  \<open>js_set\<close> for the one assignment that replaces it.)\<close>

definition merge_dependency :: "node_results \<Rightarrow> string \<Rightarrow> jsobject \<Rightarrow> jsobject" where
  "merge_dependency previousResults dep inputs' =
     (case map_of previousResults dep of
        None \<Rightarrow> inputs'
      | Some r \<Rightarrow>
          if success r \<and> is_non_null_object (output_value r)
          then assign_entries inputs' (own_entries (output_value r))
          else inputs')"

definition prepareNodeInputs :: "DAGNode \<Rightarrow> jsobject \<Rightarrow> node_results \<Rightarrow> jsobject" where
  "prepareNodeInputs node rootInputs previousResults =
     assign_entries
       (fold (merge_dependency previousResults) (dependencies node)
          (spread (inputs node)))
       rootInputs"

subsection \<open>executeDag\<close>

text \<open>
  \<^verbatim>\<open>executePrompt\<close> of the router reaches the vault and the prompt module; here it is a
  parameter that acts on the world and either returns a result or throws.
\<close>

type_synonym 'w executePrompt_fn =
  "string \<Rightarrow> jsobject \<Rightarrow> ExecutionContext \<Rightarrow> string option \<Rightarrow> 'w world
     \<Rightarrow> (js_error + PromptExecutionResult) \<times> 'w world"

definition context_caller :: "PartialContext option \<Rightarrow> string" where
  "context_caller context =
     (case context of
        None \<Rightarrow> ''dag-executor''
      | Some c \<Rightarrow> (case partial_caller c of
                     None \<Rightarrow> ''dag-executor''
                   | Some s \<Rightarrow> if s = [] then ''dag-executor'' else s))"

definition context_modelProvider :: "PartialContext option \<Rightarrow> string option" where
  "context_modelProvider context =
     (case context of None \<Rightarrow> None | Some c \<Rightarrow> partial_modelProvider c)"

text \<open>The loop \<^verbatim>\<open>for (const node of sortedNodes)\<close> with its inner try/catch. The
  object \<^verbatim>\<open>results\<close> is held by its own properties; \<^verbatim>\<open>results[node.id] = nodeResult\<close>
  for the id \<^verbatim>\<open>__proto__\<close> creates none.\<close>

fun run_nodes :: "runtime \<Rightarrow> 'w executePrompt_fn \<Rightarrow> jsobject \<Rightarrow> PartialContext option \<Rightarrow> int
      \<Rightarrow> DAGNode list \<Rightarrow> node_results \<Rightarrow> string list \<Rightarrow> 'w world
      \<Rightarrow> DAGExecutionResult \<times> 'w world" where
  "run_nodes rt exec rootInputs context startTime [] res ord w =
     (let (t, w') = Date_now rt w in
      (\<lparr>dag_success = True, results = res, executionOrder = ord,
        totalExecutionTime = t - startTime, dag_error = None\<rparr>, w'))"
| "run_nodes rt exec rootInputs context startTime (node # rest) res ord w =
     (let (nodeStartTime, w1) = Date_now rt w;
          nodeInputs = prepareNodeInputs node rootInputs res;
          (rid, w2) = uuidv4 rt w1;
          nodeContext = \<lparr>caller = context_caller context,
                         modelProvider = context_modelProvider context,
                         timestamp = nodeStartTime,
                         requestId = rid,
                         previousOutputs = res\<rparr>
      in case exec (promptId node) nodeInputs nodeContext (version node) w2 of
           (Inl e, w3) \<Rightarrow>
             (let (t, w4) = Date_now rt w3 in
              (\<lparr>dag_success = False, results = res, executionOrder = ord,
                totalExecutionTime = t - startTime,
                dag_error = Some \<lparr>nodeId = node_id node, failure = Thrown e\<rparr>\<rparr>, w4))
         | (Inr nodeResult, w3) \<Rightarrow>
             (let res' = js_set (node_id node) nodeResult res;
                  ord' = ord @ [node_id node]
              in if \<not> success nodeResult
                 then (let (t, w4) = Date_now rt w3 in
                       (\<lparr>dag_success = False, results = res', executionOrder = ord',
                         totalExecutionTime = t - startTime,
                         dag_error = Some \<lparr>nodeId = node_id node,
                                            failure = NodeFailure (error nodeResult)\<rparr>\<rparr>, w4))
                 else run_nodes rt exec rootInputs context startTime rest res' ord' w3))"

text \<open>The outer try/catch: a throw of \<^verbatim>\<open>validateDAG\<close> or \<^verbatim>\<open>topologicalSort\<close> is
  reported under the node id \<^verbatim>\<open>validation\<close> with the untouched \<^verbatim>\<open>results\<close> and
  \<^verbatim>\<open>executionOrder\<close>.\<close>

definition validation_failure :: "runtime \<Rightarrow> int \<Rightarrow> js_error \<Rightarrow> 'w world
      \<Rightarrow> DAGExecutionResult \<times> 'w world" where
  "validation_failure rt startTime e w =
     (let (t, w') = Date_now rt w in
      (\<lparr>dag_success = False, results = [], executionOrder = [],
        totalExecutionTime = t - startTime,
        dag_error = Some \<lparr>nodeId = ''validation'', failure = Thrown e\<rparr>\<rparr>, w'))"

definition executeDag :: "runtime \<Rightarrow> 'w executePrompt_fn \<Rightarrow> DAGDefinition \<Rightarrow> jsobject
      \<Rightarrow> PartialContext option \<Rightarrow> 'w world \<Rightarrow> DAGExecutionResult \<times> 'w world" where
  "executeDag rt exec dag rootInputs context w =
     (let (startTime, w1) = Date_now rt w in
      case validateDAG dag of
        Inl e \<Rightarrow> validation_failure rt startTime e w1
      | Inr u \<Rightarrow>
          (case topologicalSort dag of
             Inl e \<Rightarrow> validation_failure rt startTime e w1
           | Inr sortedNodes \<Rightarrow>
               run_nodes rt exec rootInputs context startTime sortedNodes [] [] w1))"

section \<open>Specification-side notions\<close>

subsection \<open>Merging with later-wins precedence\<close>

text \<open>What a listed dependency contributes to a node's inputs according to the
  specification: the properties of its output when its recorded result succeeded and
  the output is a non-null object, nothing otherwise.\<close>

definition dependency_contribution :: "node_results \<Rightarrow> string \<Rightarrow> jsobject" where
  "dependency_contribution previousResults dep =
     (case map_of previousResults dep of
        None \<Rightarrow> []
      | Some r \<Rightarrow> if success r \<and> is_non_null_object (output_value r)
                  then own_entries (output_value r) else [])"

text \<open>The layers in the specification's order: the node's literal inputs, then each
  dependency's contribution in the order of the dependency list, then the root inputs.\<close>

definition merge_layers :: "DAGNode \<Rightarrow> jsobject \<Rightarrow> node_results \<Rightarrow> jsobject" where
  "merge_layers node rootInputs previousResults =
     inputs node @ concat (map (dependency_contribution previousResults) (dependencies node))
       @ rootInputs"

text \<open>Later wins: a key has the value of the last entry written under it.\<close>

definition later_wins :: "jsobject \<Rightarrow> string \<Rightarrow> jsval option" where
  "later_wins es k =
     (case filter (\<lambda>e. fst e = k) es of [] \<Rightarrow> None | e # es' \<Rightarrow> Some (snd (last (e # es'))))"

subsection \<open>Expiration\<close>

text \<open>A policy has expired at the next clock reading when its \<^verbatim>\<open>expirationDate\<close> is
  set, not zero, and smaller than that reading.\<close>

definition expired :: "runtime \<Rightarrow> AccessPolicy \<Rightarrow> 'w world \<Rightarrow> bool" where
  "expired rt policy w =
     (case expirationDate policy of
        None \<Rightarrow> False
      | Some e \<Rightarrow> e \<noteq> 0 \<and> clock rt (ticks w) > e)"

definition on_whitelist :: "AccessPolicy \<Rightarrow> string \<Rightarrow> bool" where
  "on_whitelist policy c =
     (case whitelist policy of None \<Rightarrow> False | Some wl \<Rightarrow> c \<in> set wl)"

subsection \<open>Errors and warnings of the validator\<close>

text \<open>A name that every plain object inherits, so that the operator \<^verbatim>\<open>in\<close> finds it
  in any input and in any parameter declaration.\<close>

definition inherited_name :: "string \<Rightarrow> bool" where
  "inherited_name k = (k \<in> set object_prototype_names)"

definition own_key :: "string \<Rightarrow> (string \<times> 'a) list \<Rightarrow> bool" where
  "own_key k obj = (k \<in> fst ` set obj)"

text \<open>The errors of one declared parameter whose name is not an inherited one: the
  missing message alone when it is required and absent from the input, the value's
  validation error when it is present and has one, none otherwise. A parameter with an
  inherited name is never absent: the value checked is the one the input holds or
  inherits.\<close>

definition entry_errors :: "runtime \<Rightarrow> jsobject \<Rightarrow> string \<times> InputParameter \<Rightarrow> string list" where
  "entry_errors rt input entry =
     (if inherited_name (fst entry) \<or> own_key (fst entry) input
      then (case validateParameterValue rt (fst entry) (js_get input (fst entry)) (snd entry) of
              Inr (Some validationError) \<Rightarrow> [validationError]
            | _ \<Rightarrow> [])
      else if required (snd entry) then [missing_msg (fst entry)]
      else [])"

text \<open>The keys of the input that are neither declared nor inherited names.\<close>

definition undeclared_keys :: "PromptDefinition \<Rightarrow> jsobject \<Rightarrow> string list" where
  "undeclared_keys defn input =
     filter (\<lambda>key. \<not> own_key key (def_inputs defn) \<and> \<not> inherited_name key) (map fst input)"

text \<open>Every non-empty \<^verbatim>\<open>pattern\<close> of the declared parameters is a regular expression.\<close>

definition declared_patterns_compile :: "runtime \<Rightarrow> PromptDefinition \<Rightarrow> bool" where
  "declared_patterns_compile rt defn =
     list_all (\<lambda>entry. case pattern (snd entry) of
                         None \<Rightarrow> True
                       | Some p \<Rightarrow> p = [] \<or> new_RegExp rt p \<noteq> None)
       (def_inputs defn)"

subsection \<open>Malformed DAGs\<close>

text \<open>The dependency graph of a DAG definition: an edge from each node id to each id
  in that node's \<^verbatim>\<open>dependencies\<close>. A dependency cycle is a non-empty path of such
  edges from an id back to itself.\<close>

definition dep_edges :: "DAGDefinition \<Rightarrow> (string \<times> string) set" where
  "dep_edges dag = {(node_id n, d) | n d. n \<in> set (nodes dag) \<and> d \<in> set (dependencies n)}"

definition has_dependency_cycle :: "DAGDefinition \<Rightarrow> bool" where
  "has_dependency_cycle dag = (\<exists>x. (x, x) \<in> (dep_edges dag)\<^sup>+)"

definition has_duplicate_ids :: "DAGDefinition \<Rightarrow> bool" where
  "has_duplicate_ids dag = (\<not> distinct (map node_id (nodes dag)))"

definition has_dangling_dependency :: "DAGDefinition \<Rightarrow> bool" where
  "has_dangling_dependency dag =
     (\<exists>n d. n \<in> set (nodes dag) \<and> d \<in> set (dependencies n)
            \<and> d \<notin> set (map node_id (nodes dag)))"

subsection \<open>The invariant of the sort\<close>

text \<open>Every node of the list has all its dependencies further back in the list.\<close>

fun deps_follow :: "DAGNode list \<Rightarrow> bool" where
  "deps_follow [] = True"
| "deps_follow (n # post) =
     (set (dependencies n) \<subseteq> set (map node_id post) \<and> deps_follow post)"

definition sort_inv :: "DAGNode list \<Rightarrow> string list \<times> DAGNode list \<Rightarrow> bool" where
  "sort_inv ns st =
     (fst st = map node_id (snd st) \<and> distinct (fst st) \<and> deps_follow (snd st)
      \<and> set (snd st) \<subseteq> set ns)"

text \<open>The number of nodes from the first one with the given id to the end of the list.\<close>

definition rank :: "DAGNode list \<Rightarrow> string \<Rightarrow> nat" where
  "rank r x = length (dropWhile (\<lambda>n. node_id n \<noteq> x) r)"

subsection \<open>A node stripped of its dependencies\<close>

definition without_dependencies :: "DAGNode \<Rightarrow> DAGNode" where
  "without_dependencies node = node\<lparr>dependencies := []\<rparr>"

section \<open>Example inputs\<close>

definition example_result :: "bool \<Rightarrow> jsval \<Rightarrow> PromptExecutionResult" where
  "example_result ok out =
     \<lparr>success = ok, output_value = out, meta_promptId = [], meta_version = [],
      meta_executionId = [], meta_timestamp = 0, meta_executionTime = 0,
      signature = None, error = None\<rparr>"

definition example_node :: "string \<Rightarrow> jsobject \<Rightarrow> string list \<Rightarrow> DAGNode" where
  "example_node i lit deps =
     \<lparr>node_id = i, promptId = i, version = None, inputs = lit, dependencies = deps\<rparr>"

text \<open>A runtime whose clock starts at \<open>t\<close> and advances by one per reading, where
  every pattern is a regular expression that always matches and replaces nothing, and
  whose hash is the identity.\<close>

definition example_runtime :: "int \<Rightarrow> runtime" where
  "example_runtime t =
     \<lparr>clock = (\<lambda>n. t + int n),
      uuid = (\<lambda>n. ''uuid-'' @ string_of_nat n),
      sha256 = (\<lambda>s. s),
      new_RegExp = (\<lambda>p. Some \<lparr>re_test = (\<lambda>s. True), re_replace_all = (\<lambda>s r. s)\<rparr>),
      json_text = (\<lambda>v. ''json'')\<rparr>"

definition example_world :: "unit world" where
  "example_world = \<lparr>ticks = 0, uuids = 0, ext = ()\<rparr>"

definition example_policy :: "access_type \<Rightarrow> string list option \<Rightarrow> int option \<Rightarrow> AccessPolicy" where
  "example_policy ty wl ex =
     \<lparr>policy_type = ty, tokenAddress = None, minimumBalance = None, whitelist = wl,
      maxUsagePerDay = None, expirationDate = ex\<rparr>"

definition example_metadata :: "AccessPolicy \<Rightarrow> PromptMetadata" where
  "example_metadata policy =
     \<lparr>md_id = ''test-prompt'', md_name = ''Test Prompt'', md_author = ''test-author'',
      md_createdAt = 0, md_updatedAt = 0, md_executionCount = 0, md_accessPolicy = policy\<rparr>"

text \<open>The prompt of the module's unit tests: a required string \<^verbatim>\<open>text\<close> and an optional
  \<^verbatim>\<open>format\<close> with a default and an enumeration.\<close>

definition example_param :: "param_type \<Rightarrow> bool \<Rightarrow> jsval \<Rightarrow> string list option \<Rightarrow> InputParameter" where
  "example_param ty req dflt en =
     \<lparr>ptype = ty, required = req, default_value = dflt, minLength = None, maxLength = None,
      pattern = None, enum = en, minimum = None, maximum = None, minItems = None,
      maxItems = None\<rparr>"

definition example_definition :: PromptDefinition where
  "example_definition =
     \<lparr>def_id = ''test-prompt'', def_name = ''Test Prompt'', def_version = ''1.0.0'',
      def_author = ''test-author'',
      def_inputs =
        [(''text'', example_param TString True JUndefined None),
         (''format'', example_param TString False (JStr ''plain'')
                        (Some [''plain'', ''json'', ''markdown'']))],
      template = ''Process this text in {{format}} format: {{text}}'',
      def_dependencies = None\<rparr>"

definition example_module :: "AccessPolicy \<Rightarrow> PromptModule" where
  "example_module policy =
     \<lparr>definition_of = example_definition, metadata_of = example_metadata policy,
      executionCount = 0, lastExecutionTime = None\<rparr>"

definition example_context :: "string \<Rightarrow> string \<Rightarrow> jsobject" where
  "example_context c rid =
     [(''caller'', JStr c), (''timestamp'', JNum 0), (''requestId'', JStr rid)]"

definition example_dag :: "DAGNode list \<Rightarrow> DAGDefinition" where
  "example_dag ns =
     \<lparr>dag_id = ''example'', dag_name = ''example'', dag_description = [], nodes = ns,
      edges = []\<rparr>"

text \<open>A prompt executor that returns a failed result for the prompts listed and a
  successful one with an empty object for all others, and leaves the world alone.\<close>

definition example_exec :: "string list \<Rightarrow> unit executePrompt_fn" where
  "example_exec failing pid nodeInputs nodeContext ver w =
     (Inr (example_result (pid \<notin> set failing) (JObj [])), w)"

text \<open>A prompt executor that shows what each node was given: the prompt \<open>producer\<close>
  returns the output \<open>out\<close>, every other prompt returns as its output the very input
  object it was called with.\<close>

definition example_echo_exec :: "string \<Rightarrow> jsval \<Rightarrow> unit executePrompt_fn" where
  "example_echo_exec producer out pid nodeInputs nodeContext ver w =
     (Inr (example_result True (if pid = producer then out else JObj nodeInputs)), w)"

section \<open>Access control\<close>

lemma check_expiration_result:
  "fst (check_expiration rt policy w) =
     (if expired rt policy w
      then Inl (access_denied ''Access to this prompt has expired'')
      else Inr ())"
  by (simp add: check_expiration_def expired_def Date_now_def split: option.splits)

text \<open>
  Claim C5, as the code has it. With a non-zero \<^verbatim>\<open>expirationDate\<close> smaller than the
  current time, \<^verbatim>\<open>checkAccess\<close> throws ACCESS_DENIED for the types token_gated,
  nft_gated and custom and for a caller other than the author of a private prompt. A
  public prompt, and the author of a private one, return from the \<^verbatim>\<open>switch\<close> before
  the expiration test and are granted access.
\<close>

theorem checkAccess_expiration:
  assumes "expirationDate (md_accessPolicy md) = Some e"
    and "e \<noteq> 0"
    and "clock rt (ticks w) > e"
  shows "(if policy_type (md_accessPolicy md) = Public
            \<or> (policy_type (md_accessPolicy md) = Private \<and> c = md_author md)
          then fst (checkAccess rt md c w) = Inr ()
          else (\<exists>msg. fst (checkAccess rt md c w)
                  = Inl (PromptHubMCPError ACCESS_DENIED msg JUndefined)))"
proof -
  from assms have ex: "expired rt (md_accessPolicy md) w"
    by (simp add: expired_def)
  show ?thesis
  proof (cases "policy_type (md_accessPolicy md)")
    case Public
    then show ?thesis by (simp add: checkAccess_def)
  next
    case Private
    then show ?thesis by (simp add: checkAccess_def access_denied_def)
  next
    case TokenGated
    then show ?thesis
      by (simp add: checkAccess_def check_expiration_result ex access_denied_def)
  next
    case NftGated
    then show ?thesis
      by (simp add: checkAccess_def check_expiration_result ex access_denied_def)
  next
    case Custom
    then show ?thesis
      by (auto simp: checkAccess_def Let_def check_expiration_result ex access_denied_def
          split: option.splits)
  qed
qed

theorem checkAccess_expiration_witness:
  "\<exists>msg. fst (checkAccess (example_runtime 2000)
            (example_metadata (example_policy Custom (Some [''alice'']) (Some 1000)))
            ''alice'' example_world)
      = Inl (PromptHubMCPError ACCESS_DENIED msg JUndefined)"
  using checkAccess_expiration
    [of "example_metadata (example_policy Custom (Some [''alice'']) (Some 1000))" 1000
        "example_runtime 2000" example_world "''alice''"]
  by (simp add: example_metadata_def example_policy_def example_runtime_def example_world_def)

theorem checkAccess_public_expired_counterexample:
  "clock (example_runtime 2000) (ticks example_world) > 1000
   \<and> fst (checkAccess (example_runtime 2000)
            (example_metadata (example_policy Public None (Some 1000)))
            ''anyone'' example_world) = Inr ()"
  by (simp add: checkAccess_def example_metadata_def example_policy_def example_runtime_def
      example_world_def)

text \<open>
  Claim C6, as the code has it. Under a policy of type custom \<^verbatim>\<open>checkAccess\<close> returns
  normally exactly when the whitelist is absent or holds the caller, and the policy
  has not expired. The whitelist test is guarded by the presence of the whitelist.
\<close>

theorem checkAccess_custom:
  assumes "policy_type (md_accessPolicy md) = Custom"
  shows "(fst (checkAccess rt md c w) = Inr ())
     = ((whitelist (md_accessPolicy md) = None \<or> on_whitelist (md_accessPolicy md) c)
        \<and> \<not> expired rt (md_accessPolicy md) w)"
  using assms
  by (simp add: checkAccess_def check_expiration_result on_whitelist_def split: option.splits)

theorem checkAccess_custom_witness:
  "fst (checkAccess (example_runtime 500)
          (example_metadata (example_policy Custom (Some [''alice'']) (Some 1000)))
          ''alice'' example_world) = Inr ()"
  using checkAccess_custom
    [of "example_metadata (example_policy Custom (Some [''alice'']) (Some 1000))"
        "example_runtime 500" "''alice''" example_world]
  by (simp add: example_metadata_def example_policy_def example_runtime_def example_world_def
      on_whitelist_def expired_def)

theorem checkAccess_custom_no_whitelist_counterexample:
  "policy_type (example_policy Custom None None) = Custom
   \<and> whitelist (example_policy Custom None None) = None
   \<and> fst (checkAccess (example_runtime 500)
            (example_metadata (example_policy Custom None None))
            ''mallory'' example_world) = Inr ()"
  by (simp add: checkAccess_def check_expiration_def example_metadata_def example_policy_def)


section \<open>Input validation\<close>

lemma has_key_spec: "has_key k obj = (own_key k obj \<or> inherited_name k)"
  by (simp add: has_key_def own_key_def inherited_name_def)

lemma check_declared_errors:
  "check_declared rt input ps errs = Inr es \<Longrightarrow>
     es = errs @ concat (map (entry_errors rt input) ps)"
proof (induction ps arbitrary: errs)
  case Nil
  then show ?case by simp
next
  case (Cons entry ps)
  obtain key param where entry: "entry = (key, param)" by (cases entry)
  show ?case
  proof (cases "has_key key input")
    case False
    then have absent: "\<not> own_key key input" "\<not> inherited_name key"
      by (simp_all add: has_key_spec)
    show ?thesis
    proof (cases "required param")
      case True
      with Cons.prems entry False
      have "check_declared rt input ps (errs @ [missing_msg key]) = Inr es" by simp
      from Cons.IH [OF this] True absent entry show ?thesis
        by (simp add: entry_errors_def)
    next
      case notreq: False
      with Cons.prems entry False have "check_declared rt input ps errs = Inr es" by simp
      from Cons.IH [OF this] notreq absent entry show ?thesis
        by (simp add: entry_errors_def)
    qed
  next
    case True
    then have present: "inherited_name key \<or> own_key key input"
      by (auto simp: has_key_spec)
    show ?thesis
    proof (cases "validateParameterValue rt key (js_get input key) param")
      case (Inl e)
      with Cons.prems entry True show ?thesis by simp
    next
      case (Inr res)
      show ?thesis
      proof (cases res)
        case None
        with Cons.prems entry True Inr have "check_declared rt input ps errs = Inr es" by simp
        from Cons.IH [OF this] None entry present Inr show ?thesis
          by (simp add: entry_errors_def)
      next
        case (Some msg)
        with Cons.prems entry True Inr
        have "check_declared rt input ps (errs @ [msg]) = Inr es" by simp
        from Cons.IH [OF this] Some entry present Inr show ?thesis
          by (simp add: entry_errors_def)
      qed
    qed
  qed
qed

lemma check_unexpected_warnings:
  "check_unexpected declared ks warns =
     warns @ map unexpected_msg (filter (\<lambda>key. \<not> has_key key declared) ks)"
  by (induction ks arbitrary: warns) simp_all

lemma validate_string_total:
  assumes "case pattern param of None \<Rightarrow> True | Some p \<Rightarrow> p = [] \<or> new_RegExp rt p \<noteq> None"
  shows "\<exists>res. validate_string rt key s param = Inr res"
proof -
  let ?inner = "case pattern param of
                    None \<Rightarrow> Inr True
                  | Some p \<Rightarrow> if p = [] then Inr True
                              else (case new_RegExp rt p of
                                      None \<Rightarrow> Inl (SyntaxError ''Invalid regular expression'')
                                    | Some re \<Rightarrow> Inr (re_test re s))"
  have "\<exists>b. ?inner = Inr b"
    using assms by (cases "pattern param") (auto split: option.splits)
  then obtain b where b: "?inner = Inr b" ..
  show ?thesis
    unfolding validate_string_def b
    by (cases b; cases "enum param") simp_all
qed

lemma validateParameterValue_total:
  assumes "case pattern param of None \<Rightarrow> True | Some p \<Rightarrow> p = [] \<or> new_RegExp rt p \<noteq> None"
  shows "\<exists>res. validateParameterValue rt key v param = Inr res"
  using validate_string_total [OF assms, of key]
  by (cases "ptype param"; cases v) (auto split: option.splits)

lemma check_declared_total:
  assumes "list_all (\<lambda>entry. case pattern (snd entry) of
                         None \<Rightarrow> True
                       | Some p \<Rightarrow> p = [] \<or> new_RegExp rt p \<noteq> None) ps"
  shows "\<exists>es. check_declared rt input ps errs = Inr es"
  using assms
proof (induction ps arbitrary: errs)
  case Nil
  show ?case by simp
next
  case (Cons entry ps)
  obtain key param where entry: "entry = (key, param)" by (cases entry)
  from Cons.prems entry
  have p: "case pattern param of None \<Rightarrow> True | Some p \<Rightarrow> p = [] \<or> new_RegExp rt p \<noteq> None"
    and rest: "list_all (\<lambda>entry. case pattern (snd entry) of
                         None \<Rightarrow> True
                       | Some p \<Rightarrow> p = [] \<or> new_RegExp rt p \<noteq> None) ps"
    by simp_all
  from validateParameterValue_total [OF p, of key "js_get input key"]
  obtain res where res: "validateParameterValue rt key (js_get input key) param = Inr res"
    by blast
  show ?case
    using Cons.IH [OF rest] res
    by (cases res) (simp_all add: entry)
qed

text \<open>
  Property X6. The validator tests presence with the operator
  \<^verbatim>\<open>in\<close>, which also finds the names every object inherits from \<^verbatim>\<open>Object.prototype\<close>.
  Whenever \<^verbatim>\<open>validateInput\<close> returns, \<^verbatim>\<open>valid\<close> is true exactly when \<^verbatim>\<open>errors\<close> is
  empty, whatever the warnings. \<^verbatim>\<open>errors\<close> lists, in declaration order, for each
  declared parameter that is required, absent from the input and not an inherited name
  the single message \<^verbatim>\<open>Required parameter '<name>' is missing\<close> and nothing else for that
  key, and for each parameter that is present or has an inherited name the validation
  error of its value if there is one. \<^verbatim>\<open>warnings\<close> lists
  \<^verbatim>\<open>Unexpected parameter '<name>' will be ignored\<close> for each key of the input that is
  neither declared nor an inherited name. The validator returns whenever every
  non-empty \<^verbatim>\<open>pattern\<close> of the declaration is a regular expression.
\<close>

theorem validateInput_result:
  "(\<forall>r. validateInput rt defn input = Inr r \<longrightarrow>
      valid r = (errors r = [])
      \<and> errors r = concat (map (entry_errors rt input) (def_inputs defn))
      \<and> warnings r = map unexpected_msg (undeclared_keys defn input)
      \<and> (\<forall>entry \<in> set (def_inputs defn).
            required (snd entry) \<and> \<not> own_key (fst entry) input \<and> \<not> inherited_name (fst entry)
            \<longrightarrow> missing_msg (fst entry) \<in> set (errors r))
      \<and> (\<forall>key \<in> set (map fst input).
            \<not> own_key key (def_inputs defn) \<and> \<not> inherited_name key
            \<longrightarrow> unexpected_msg key \<in> set (warnings r)))
   \<and> (declared_patterns_compile rt defn \<longrightarrow> (\<exists>r. validateInput rt defn input = Inr r))"
proof (intro conjI allI impI)
  fix r
  assume ret: "validateInput rt defn input = Inr r"
  then obtain es where es: "check_declared rt input (def_inputs defn) [] = Inr es"
    and r: "r = \<lparr>valid = (length es = 0), errors = es,
                 warnings = check_unexpected (def_inputs defn) (map fst input) []\<rparr>"
    by (auto simp: validateInput_def split: sum.splits)
  show "valid r = (errors r = [])" by (simp add: r)
  show errs: "errors r = concat (map (entry_errors rt input) (def_inputs defn))"
    using check_declared_errors [OF es] by (simp add: r)
  show warns: "warnings r = map unexpected_msg (undeclared_keys defn input)"
    by (simp add: r check_unexpected_warnings undeclared_keys_def has_key_spec)
  show "\<forall>entry \<in> set (def_inputs defn).
      required (snd entry) \<and> \<not> own_key (fst entry) input \<and> \<not> inherited_name (fst entry)
      \<longrightarrow> missing_msg (fst entry) \<in> set (errors r)"
  proof (intro ballI impI)
    fix entry
    assume mem: "entry \<in> set (def_inputs defn)"
      and "required (snd entry) \<and> \<not> own_key (fst entry) input \<and> \<not> inherited_name (fst entry)"
    then have "entry_errors rt input entry = [missing_msg (fst entry)]"
      by (simp add: entry_errors_def)
    with mem show "missing_msg (fst entry) \<in> set (errors r)"
      unfolding errs by (auto intro!: bexI [of _ entry])
  qed
  show "\<forall>key \<in> set (map fst input).
      \<not> own_key key (def_inputs defn) \<and> \<not> inherited_name key
      \<longrightarrow> unexpected_msg key \<in> set (warnings r)"
    unfolding warns undeclared_keys_def by auto
next
  assume "declared_patterns_compile rt defn"
  then have "list_all (\<lambda>entry. case pattern (snd entry) of
                         None \<Rightarrow> True
                       | Some p \<Rightarrow> p = [] \<or> new_RegExp rt p \<noteq> None) (def_inputs defn)"
    by (simp add: declared_patterns_compile_def)
  from check_declared_total [OF this, of input "[]"]
  show "\<exists>r. validateInput rt defn input = Inr r"
    by (auto simp: validateInput_def)
qed

lemmas object_defs =
  has_key_def js_get_def inherited_def object_prototype_names_def js_set_def js_define_def
  array_index_def is_digit_def spread_def assign_entries_def

theorem validateInput_result_witness:
  "validateInput (example_runtime 0) example_definition
      [(''format'', JStr ''json''), (''unexpected'', JStr ''value'')]
    = Inr \<lparr>valid = False,
           errors = [missing_msg ''text''],
           warnings = [unexpected_msg ''unexpected'']\<rparr>"
proof -
  let ?input = "[(''format'', JStr ''json''), (''unexpected'', JStr ''value'')]"
  have pc: "declared_patterns_compile (example_runtime 0) example_definition"
    by (simp add: declared_patterns_compile_def example_definition_def example_param_def)
  from validateInput_result [of "example_runtime 0" example_definition ?input] pc
  obtain r where r: "validateInput (example_runtime 0) example_definition ?input = Inr r"
    and v: "valid r = (errors r = [])"
    and e: "errors r = concat (map (entry_errors (example_runtime 0) ?input)
                                 (def_inputs example_definition))"
    and w: "warnings r = map unexpected_msg (undeclared_keys example_definition ?input)"
    by blast
  have e': "errors r = [missing_msg ''text'']"
    by (simp add: e entry_errors_def example_definition_def example_param_def own_key_def
        inherited_name_def object_defs validate_string_def truthy_bound_def)
  have w': "warnings r = [unexpected_msg ''unexpected'']"
    by (simp add: w undeclared_keys_def example_definition_def own_key_def inherited_name_def
        object_prototype_names_def)
  have "r = \<lparr>valid = False, errors = [missing_msg ''text''],
             warnings = [unexpected_msg ''unexpected'']\<rparr>"
    using v e' w' by (cases r) simp
  with r show ?thesis by simp
qed

text \<open>
  Claim C8, evaluated on the code. The prompt declares \<^verbatim>\<open>text\<close> and \<^verbatim>\<open>format\<close>; the
  input \<^verbatim>\<open>{text: 'Hello', constructor: 'x'}\<close> holds the key \<^verbatim>\<open>constructor\<close>, which is
  not declared. The test \<^verbatim>\<open>!(key in this.definition.inputs)\<close> finds the constructor
  every object inherits, and \<^verbatim>\<open>validateInput\<close> returns no warning for the key.
\<close>

theorem validateInput_inherited_key_unwarned:
  "''constructor'' \<in> set (map fst [(''text'', JStr ''Hello''), (''constructor'', JStr ''x'')])
   \<and> ''constructor'' \<notin> set (map fst (def_inputs example_definition))
   \<and> validateInput (example_runtime 0) example_definition
        [(''text'', JStr ''Hello''), (''constructor'', JStr ''x'')]
      = Inr \<lparr>valid = True, errors = [], warnings = []\<rparr>"
  by (simp add: validateInput_def example_definition_def example_param_def object_defs
      validate_string_def truthy_bound_def)

section \<open>The execution pipeline\<close>

lemma checkAccess_world:
  assumes "checkAccess rt md c w = (res, w1)"
  shows "ticks w \<le> ticks w1 \<and> uuids w1 = uuids w \<and> ext w1 = ext w"
  using assms
  by (auto simp: checkAccess_def check_expiration_def Date_now_def Let_def
      split: access_type.splits option.splits if_splits)

text \<open>What the \<^verbatim>\<open>try\<close> block leaves behind, by the way it ends.\<close>

lemma execute_try_throw:
  assumes "execute_try rt input ctx startTime executionId m w = (Inl e, m', w')"
  shows "ticks w \<le> ticks w'
     \<and> definition_of m' = definition_of m \<and> metadata_of m' = metadata_of m
     \<and> (executionCount m' = executionCount m
          \<or> executionCount m' = executionCount m + 1)"
  using assms checkAccess_world [of rt "metadata_of m" "string_value (js_get ctx ''caller'')" w]
  unfolding execute_try_def Let_def executePrompt_def Date_now_def
  by (auto split: if_splits sum.splits prod.splits)

lemma execute_try_return:
  assumes "execute_try rt input ctx startTime executionId m w = (Inr r, m', w')"
  shows "ticks w < ticks w'
     \<and> resp_success r \<and> resp_error r = None \<and> resp_signature r \<noteq> None
     \<and> resp_timestamp r = startTime
     \<and> resp_executionTime r = clock rt (ticks w' - 1) - startTime
     \<and> resp_metadata_executionTime r = resp_executionTime r
     \<and> executionCount m' = executionCount m + 1"
  using assms checkAccess_world [of rt "metadata_of m" "string_value (js_get ctx ''caller'')" w]
  unfolding execute_try_def Let_def executePrompt_def Date_now_def
  by (auto split: if_splits sum.splits prod.splits)

text \<open>
  Claim C9. \<^verbatim>\<open>execute\<close> is a total function into responses: the whole pipeline runs
  inside the \<^verbatim>\<open>try\<close> block, and whatever that block throws is caught. When the block
  throws, the response has \<^verbatim>\<open>success = false\<close>, \<^verbatim>\<open>output\<close> null, no signature and
  \<^verbatim>\<open>metadata.error\<close> set to the code, message and details of the caught error: those of
  a \<^verbatim>\<open>PromptHubMCPError\<close>, and EXECUTION_FAILED with the error's message and the error
  itself for any other error. When the block returns, its response is returned, and it
  is a success. In every response \<^verbatim>\<open>executionTime\<close> is the last clock reading of the call
  minus its first one, which is also the reported \<^verbatim>\<open>timestamp\<close>. The block throws
  VALIDATION_ERROR for a context the schema rejects, INVALID_INPUT with the validator's
  errors for an invalid input, and the error of the access check when access is denied.
\<close>

theorem execute_always_responds:
  "(case execute rt input ctx m w of
      (r, m', w') \<Rightarrow>
        ticks w + 2 \<le> ticks w'
        \<and> resp_timestamp r = clock rt (ticks w)
        \<and> resp_executionTime r = clock rt (ticks w' - 1) - clock rt (ticks w)
        \<and> resp_metadata_executionTime r = resp_executionTime r
        \<and> (case fst (execute_try rt input ctx (clock rt (ticks w)) (uuid rt (uuids w)) m
                        (w\<lparr>ticks := Suc (ticks w), uuids := Suc (uuids w)\<rparr>)) of
              Inl e \<Rightarrow>
                resp_success r = False \<and> resp_output r = JNull \<and> resp_signature r = None
                \<and> resp_error r = Some (caught_error e)
            | Inr r0 \<Rightarrow>
                r = r0 \<and> resp_success r = True \<and> resp_error r = None
                \<and> resp_signature r \<noteq> None))
   \<and> caught_error (PromptHubMCPError c msg d) = \<lparr>code = c, message = msg, details = DetailsValue d\<rparr>
   \<and> caught_error (TypeError msg)
        = \<lparr>code = EXECUTION_FAILED, message = msg, details = DetailsError (TypeError msg)\<rparr>
   \<and> caught_error (SyntaxError msg)
        = \<lparr>code = EXECUTION_FAILED, message = msg, details = DetailsError (SyntaxError msg)\<rparr>
   \<and> (safeParse_issues ExecutionContextSchema ctx \<noteq> [] \<longrightarrow>
         fst (execute_try rt input ctx startTime executionId m w0)
           = Inl (PromptHubMCPError VALIDATION_ERROR ''Invalid execution context''
                    (JArr (map JStr (safeParse_issues ExecutionContextSchema ctx)))))
   \<and> (safeParse_issues ExecutionContextSchema ctx = []
        \<and> validateInput rt (definition_of m) input = Inr v \<and> \<not> valid v \<longrightarrow>
         fst (execute_try rt input ctx startTime executionId m w0)
           = Inl (PromptHubMCPError INVALID_INPUT ''Input validation failed''
                    (JArr (map JStr (errors v)))))
   \<and> (safeParse_issues ExecutionContextSchema ctx = []
        \<and> validateInput rt (definition_of m) input = Inr v \<and> valid v
        \<and> fst (checkAccess rt (metadata_of m) (string_value (js_get ctx ''caller'')) w0) = Inl e
        \<longrightarrow> fst (execute_try rt input ctx startTime executionId m w0) = Inl e)"
proof -
  let ?w2 = "w\<lparr>ticks := Suc (ticks w), uuids := Suc (uuids w)\<rparr>"
  let ?st = "clock rt (ticks w)"
  obtain res m1 w1 where body:
    "execute_try rt input ctx ?st (uuid rt (uuids w)) m ?w2 = (res, m1, w1)"
    by (cases "execute_try rt input ctx ?st (uuid rt (uuids w)) m ?w2") auto
  have response: "(case execute rt input ctx m w of
      (r, m', w') \<Rightarrow>
        ticks w + 2 \<le> ticks w'
        \<and> resp_timestamp r = clock rt (ticks w)
        \<and> resp_executionTime r = clock rt (ticks w' - 1) - clock rt (ticks w)
        \<and> resp_metadata_executionTime r = resp_executionTime r
        \<and> (case fst (execute_try rt input ctx (clock rt (ticks w)) (uuid rt (uuids w)) m ?w2) of
              Inl e \<Rightarrow>
                resp_success r = False \<and> resp_output r = JNull \<and> resp_signature r = None
                \<and> resp_error r = Some (caught_error e)
            | Inr r0 \<Rightarrow>
                r = r0 \<and> resp_success r = True \<and> resp_error r = None
                \<and> resp_signature r \<noteq> None))"
  proof (cases res)
    case (Inl e)
    from execute_try_throw [OF body [unfolded Inl]] have "Suc (ticks w) \<le> ticks w1" by simp
    then show ?thesis
      using body Inl
      by (simp add: execute_def Date_now_def uuidv4_def Let_def)
  next
    case (Inr r)
    from execute_try_return [OF body [unfolded Inr]]
    have "Suc (ticks w) < ticks w1" and "resp_success r" and "resp_timestamp r = ?st"
      and "resp_executionTime r = clock rt (ticks w1 - 1) - ?st"
      and "resp_metadata_executionTime r = resp_executionTime r"
      and "resp_error r = None" and "resp_signature r \<noteq> None"
      by simp_all
    then show ?thesis
      using body Inr
      by (simp add: execute_def Date_now_def uuidv4_def Let_def)
  qed
  have stage1: "safeParse_issues ExecutionContextSchema ctx \<noteq> [] \<longrightarrow>
         fst (execute_try rt input ctx startTime executionId m w0)
           = Inl (PromptHubMCPError VALIDATION_ERROR ''Invalid execution context''
                    (JArr (map JStr (safeParse_issues ExecutionContextSchema ctx))))"
    by (simp add: execute_try_def Let_def)
  have stage2: "safeParse_issues ExecutionContextSchema ctx = []
        \<and> validateInput rt (definition_of m) input = Inr v \<and> \<not> valid v \<longrightarrow>
         fst (execute_try rt input ctx startTime executionId m w0)
           = Inl (PromptHubMCPError INVALID_INPUT ''Input validation failed''
                    (JArr (map JStr (errors v))))"
    by (simp add: execute_try_def Let_def)
  have stage3: "safeParse_issues ExecutionContextSchema ctx = []
        \<and> validateInput rt (definition_of m) input = Inr v \<and> valid v
        \<and> fst (checkAccess rt (metadata_of m) (string_value (js_get ctx ''caller'')) w0) = Inl e
        \<longrightarrow> fst (execute_try rt input ctx startTime executionId m w0) = Inl e"
    by (auto simp: execute_try_def Let_def split: prod.splits)
  show ?thesis
    using response stage1 stage2 stage3 by (simp add: caught_error_def)
qed

lemmas execute_example_defs =
  execute_def execute_try_def Date_now_def uuidv4_def example_runtime_def example_world_def
  example_context_def example_module_def example_policy_def example_metadata_def
  example_definition_def example_param_def safeParse_issues_def ExecutionContextSchema_def
  optional_def validateInput_def object_defs validate_string_def truthy_bound_def
  checkAccess_def prepareExecutionInputs_def resolveDependencies_def renderTemplate_def
  render_entry_def executePrompt_def generateExecutionSignature_def hash_json_def
  JSON_stringify_def caught_error_def Let_def

theorem execute_always_responds_witness:
  "resp_success (fst (execute (example_runtime 100) [(''format'', JStr ''json'')]
        (example_context ''test-caller'' ''test-request-id'')
        (example_module (example_policy Public None None)) example_world)) = False
   \<and> resp_output (fst (execute (example_runtime 100) [(''format'', JStr ''json'')]
        (example_context ''test-caller'' ''test-request-id'')
        (example_module (example_policy Public None None)) example_world)) = JNull
   \<and> resp_error (fst (execute (example_runtime 100) [(''format'', JStr ''json'')]
        (example_context ''test-caller'' ''test-request-id'')
        (example_module (example_policy Public None None)) example_world))
      = Some \<lparr>code = INVALID_INPUT, message = ''Input validation failed'',
               details = DetailsValue (JArr [JStr (missing_msg ''text'')])\<rparr>
   \<and> resp_executionTime (fst (execute (example_runtime 100) [(''format'', JStr ''json'')]
        (example_context ''test-caller'' ''test-request-id'')
        (example_module (example_policy Public None None)) example_world)) = 1"
proof -
  let ?rt = "example_runtime 100"
  let ?input = "[(''format'', JStr ''json'')]"
  let ?ctx = "example_context ''test-caller'' ''test-request-id''"
  let ?m = "example_module (example_policy Public None None)"
  let ?call = "execute ?rt ?input ?ctx ?m example_world"
  let ?w2 = "example_world\<lparr>ticks := Suc (ticks example_world), uuids := Suc (uuids example_world)\<rparr>"
  let ?v = "\<lparr>valid = False, errors = [missing_msg ''text''], warnings = []\<rparr>"
  have schema: "safeParse_issues ExecutionContextSchema ?ctx = []"
    by (simp add: safeParse_issues_def ExecutionContextSchema_def example_context_def
        optional_def object_defs)
  have invalid: "validateInput ?rt (definition_of ?m) ?input = Inr ?v"
    by (simp add: validateInput_def example_module_def example_definition_def
        example_param_def object_defs validate_string_def truthy_bound_def)
  have ticks: "ticks (snd (snd ?call)) = 2"
    by (simp add: execute_example_defs)
  note fact = execute_always_responds [where rt = ?rt and input = ?input and ctx = ?ctx
      and m = ?m and w = example_world and v = ?v
      and startTime = "clock ?rt (ticks example_world)"
      and executionId = "uuid ?rt (uuids example_world)" and ?w0.0 = ?w2]
  from fact schema invalid
  have thrown: "fst (execute_try ?rt ?input ?ctx (clock ?rt (ticks example_world))
        (uuid ?rt (uuids example_world)) ?m ?w2)
      = Inl (PromptHubMCPError INVALID_INPUT ''Input validation failed''
               (JArr (map JStr (errors ?v))))"
    by simp
  from fact have "case fst (execute_try ?rt ?input ?ctx (clock ?rt (ticks example_world))
        (uuid ?rt (uuids example_world)) ?m ?w2) of
              Inl e \<Rightarrow>
                resp_success (fst ?call) = False \<and> resp_output (fst ?call) = JNull
                \<and> resp_signature (fst ?call) = None
                \<and> resp_error (fst ?call) = Some (caught_error e)
            | Inr r0 \<Rightarrow>
                fst ?call = r0 \<and> resp_success (fst ?call) = True
                \<and> resp_error (fst ?call) = None \<and> resp_signature (fst ?call) \<noteq> None"
    and time: "resp_executionTime (fst ?call)
      = clock ?rt (ticks (snd (snd ?call)) - 1) - clock ?rt (ticks example_world)"
    by (simp_all add: case_prod_beta)
  with thrown have "resp_success (fst ?call) = False" and "resp_output (fst ?call) = JNull"
    and "resp_error (fst ?call)
      = Some (caught_error (PromptHubMCPError INVALID_INPUT ''Input validation failed''
               (JArr (map JStr (errors ?v)))))"
    by simp_all
  with time ticks show ?thesis
    by (simp add: caught_error_def example_runtime_def example_world_def)
qed

text \<open>
  Claim C7, as the code has it. The schema asks for strings, not for non-empty ones.
  When \<^verbatim>\<open>caller\<close> or \<^verbatim>\<open>requestId\<close> is not a string (an absent property included),
  \<^verbatim>\<open>execute\<close> fails with VALIDATION_ERROR at the first stage: the module is unchanged and
  the clock was read only at the start of the call and in the \<^verbatim>\<open>catch\<close> block, whatever
  the input and the access policy. A context whose \<^verbatim>\<open>caller\<close> and \<^verbatim>\<open>requestId\<close> are empty
  strings passes the schema.
\<close>

theorem execute_rejects_malformed_context:
  assumes "\<not> is_string (js_get ctx ''caller'') \<or> \<not> is_string (js_get ctx ''requestId'')"
  shows "(case execute rt input ctx m w of
      (r, m', w') \<Rightarrow>
        \<not> resp_success r
        \<and> (\<exists>d. resp_error r = Some \<lparr>code = VALIDATION_ERROR,
                                      message = ''Invalid execution context'',
                                      details = d\<rparr>)
        \<and> m' = m
        \<and> w' = w\<lparr>ticks := ticks w + 2, uuids := Suc (uuids w)\<rparr>)
     \<and> safeParse_issues ExecutionContextSchema
          [(''caller'', JStr []), (''timestamp'', JNum t), (''requestId'', JStr [])] = []"
proof -
  from assms have "safeParse_issues ExecutionContextSchema ctx \<noteq> []"
    by (auto simp: safeParse_issues_def ExecutionContextSchema_def)
  then have "(case execute rt input ctx m w of
      (r, m', w') \<Rightarrow>
        \<not> resp_success r
        \<and> (\<exists>d. resp_error r = Some \<lparr>code = VALIDATION_ERROR,
                                      message = ''Invalid execution context'',
                                      details = d\<rparr>)
        \<and> m' = m
        \<and> w' = w\<lparr>ticks := ticks w + 2, uuids := Suc (uuids w)\<rparr>)"
    by (simp add: execute_def execute_try_def Date_now_def uuidv4_def caught_error_def Let_def)
  moreover have "safeParse_issues ExecutionContextSchema
      [(''caller'', JStr []), (''timestamp'', JNum t), (''requestId'', JStr [])] = []"
    by (simp add: safeParse_issues_def ExecutionContextSchema_def optional_def object_defs)
  ultimately show ?thesis by simp
qed

theorem execute_rejects_malformed_context_witness:
  "\<not> resp_success (fst (execute (example_runtime 0) [(''text'', JStr ''Hello'')]
        [(''timestamp'', JNum 0), (''requestId'', JStr ''test-request-id'')]
        (example_module (example_policy Public None None)) example_world))"
  using execute_rejects_malformed_context
    [where ctx = "[(''timestamp'', JNum 0), (''requestId'', JStr ''test-request-id'')]"
       and rt = "example_runtime 0" and input = "[(''text'', JStr ''Hello'')]"
       and m = "example_module (example_policy Public None None)" and w = example_world]
  by (auto simp: object_defs case_prod_beta)

theorem execute_empty_caller_counterexample:
  "js_get (example_context [] []) ''caller'' = JStr []
   \<and> js_get (example_context [] []) ''requestId'' = JStr []
   \<and> resp_success (fst (execute (example_runtime 0) [(''text'', JStr ''Hello'')]
        (example_context [] [])
        (example_module (example_policy Public None None)) example_world))"
  by (simp add: execute_example_defs)

text \<open>
  Claim C10, evaluated on the code. The input carries a BigInt under a key the prompt
  does not declare: validation passes with a warning, the mock model call returns, the
  counter is incremented, and then \<^verbatim>\<open>JSON.stringify(input)\<close> throws inside
  \<^verbatim>\<open>generateExecutionSignature\<close>. The call returns a failure and \<^verbatim>\<open>getMetadata\<close> shows
  the count one higher.
\<close>

theorem execute_failure_increments_count:
  "\<not> resp_success (fst (execute (example_runtime 0)
        [(''text'', JStr ''Hello''), (''extra'', JBigInt 10)]
        (example_context ''test-caller'' ''test-request-id'')
        (example_module (example_policy Public None None)) example_world))
   \<and> md_executionCount (getMetadata (example_module (example_policy Public None None))) = 0
   \<and> md_executionCount (getMetadata (fst (snd (execute (example_runtime 0)
        [(''text'', JStr ''Hello''), (''extra'', JBigInt 10)]
        (example_context ''test-caller'' ''test-request-id'')
        (example_module (example_policy Public None None)) example_world)))) = 1"
  by (simp add: execute_example_defs getMetadata_def)


section \<open>The order of execution, evaluated\<close>

lemmas executeDag_example_defs =
  executeDag_def validateDAG_def hasCycles_def topologicalSort_def nodeMap_def
  validation_failure_def Date_now_def uuidv4_def example_dag_def example_node_def
  example_exec_def example_echo_exec_def example_result_def prepareNodeInputs_def
  merge_dependency_def object_defs cycle_error_def Let_def

text \<open>
  Claim C1, evaluated on the code. Node \<^verbatim>\<open>B\<close> depends on node \<^verbatim>\<open>A\<close>, the graph is acyclic
  and passes validation, and every prompt succeeds. \<^verbatim>\<open>topologicalSort\<close> prepends each
  finished node to its result, so \<^verbatim>\<open>B\<close> is executed before its dependency \<^verbatim>\<open>A\<close>.
\<close>

theorem executeDag_dependency_after_dependent:
  "validateDAG (example_dag [example_node ''A'' [] [], example_node ''B'' [] [''A'']]) = Inr ()
   \<and> dag_success (fst (executeDag rt (example_exec [])
        (example_dag [example_node ''A'' [] [], example_node ''B'' [] [''A'']]) [] None w))
   \<and> executionOrder (fst (executeDag rt (example_exec [])
        (example_dag [example_node ''A'' [] [], example_node ''B'' [] [''A'']]) [] None w))
      = [''B'', ''A'']"
  by (simp add: executeDag_example_defs)

text \<open>
  Claim C2, evaluated on the code. In the linear DAG where \<^verbatim>\<open>B\<close> depends on \<^verbatim>\<open>A\<close> and
  \<^verbatim>\<open>C\<close> on \<^verbatim>\<open>B\<close>, and the prompt of \<^verbatim>\<open>B\<close> fails, the run stops at \<^verbatim>\<open>B\<close> and reports it,
  but the nodes executed are \<^verbatim>\<open>C\<close> and \<^verbatim>\<open>B\<close>, not \<^verbatim>\<open>A\<close> and \<^verbatim>\<open>B\<close>: the order is the
  reversed one of \<^verbatim>\<open>topologicalSort\<close>.
\<close>

theorem executeDag_linear_failure:
  "\<not> dag_success (fst (executeDag rt (example_exec [''B''])
        (example_dag [example_node ''A'' [] [], example_node ''B'' [] [''A''],
                      example_node ''C'' [] [''B'']]) [] None w))
   \<and> executionOrder (fst (executeDag rt (example_exec [''B''])
        (example_dag [example_node ''A'' [] [], example_node ''B'' [] [''A''],
                      example_node ''C'' [] [''B'']]) [] None w))
      = [''C'', ''B'']
   \<and> map fst (results (fst (executeDag rt (example_exec [''B''])
        (example_dag [example_node ''A'' [] [], example_node ''B'' [] [''A''],
                      example_node ''C'' [] [''B'']]) [] None w)))
      = [''C'', ''B'']
   \<and> map_option nodeId (dag_error (fst (executeDag rt (example_exec [''B''])
        (example_dag [example_node ''A'' [] [], example_node ''B'' [] [''A''],
                      example_node ''C'' [] [''B'']]) [] None w)))
      = Some ''B''"
  by (simp add: executeDag_example_defs)

text \<open>
  Claim C4, evaluated on the code. Node \<^verbatim>\<open>n\<close> has the literal input \<^verbatim>\<open>{x:1}\<close> and
  depends on node \<^verbatim>\<open>d\<close>, whose prompt produces the object \<^verbatim>\<open>{x:2, y:3}\<close>; the root inputs
  are \<^verbatim>\<open>{x:4}\<close>. The DAG passes validation. Because the order of \<^verbatim>\<open>topologicalSort\<close> is
  the reversed one, \<^verbatim>\<open>n\<close> is executed before \<^verbatim>\<open>d\<close>, when \<^verbatim>\<open>results\<close> holds nothing for
  \<^verbatim>\<open>d\<close>: the input object passed to the prompt of \<^verbatim>\<open>n\<close>, which the executor of the
  example returns as the output of \<^verbatim>\<open>n\<close>, is \<^verbatim>\<open>{x:4}\<close> and has no \<^verbatim>\<open>y\<close>.
\<close>

theorem executeDag_dependency_output_not_merged:
  "validateDAG (example_dag [example_node ''d'' [] [],
                             example_node ''n'' [(''x'', JNum 1)] [''d'']]) = Inr ()
   \<and> dag_success (fst (executeDag rt
        (example_echo_exec ''d'' (JObj [(''x'', JNum 2), (''y'', JNum 3)]))
        (example_dag [example_node ''d'' [] [], example_node ''n'' [(''x'', JNum 1)] [''d'']])
        [(''x'', JNum 4)] None w))
   \<and> executionOrder (fst (executeDag rt
        (example_echo_exec ''d'' (JObj [(''x'', JNum 2), (''y'', JNum 3)]))
        (example_dag [example_node ''d'' [] [], example_node ''n'' [(''x'', JNum 1)] [''d'']])
        [(''x'', JNum 4)] None w))
      = [''n'', ''d'']
   \<and> map_option output_value (map_of (results (fst (executeDag rt
        (example_echo_exec ''d'' (JObj [(''x'', JNum 2), (''y'', JNum 3)]))
        (example_dag [example_node ''d'' [] [], example_node ''n'' [(''x'', JNum 1)] [''d'']])
        [(''x'', JNum 4)] None w))) ''n'')
      = Some (JObj [(''x'', JNum 4)])"
  by (simp add: executeDag_example_defs)

section \<open>Validation of the DAG\<close>

lemma nodeMap_Some:
  assumes "nodeMap ns x = Some node"
  shows "node \<in> set ns \<and> node_id node = x"
  using assms by (auto simp: nodeMap_def dest!: map_of_SomeD)

text \<open>A successful visit keeps the invariant, marks its node visited, forgets no
  visited node and never marks a node whose visit is still in progress.\<close>

lemma visit_invariant:
  "visit ns temp x st = Inr st' \<Longrightarrow> sort_inv ns st \<Longrightarrow> set temp \<inter> set (fst st) = {} \<Longrightarrow>
     sort_inv ns st' \<and> set temp \<inter> set (fst st') = {} \<and> x \<in> set (fst st')
       \<and> set (fst st) \<subseteq> set (fst st')"
  "visit_deps ns temp ds st = Inr st' \<Longrightarrow> sort_inv ns st \<Longrightarrow> set temp \<inter> set (fst st) = {} \<Longrightarrow>
     sort_inv ns st' \<and> set temp \<inter> set (fst st') = {} \<and> set ds \<subseteq> set (fst st')
       \<and> set (fst st) \<subseteq> set (fst st')"
proof (induction ns temp x st and ns temp ds st arbitrary: st' and st'
    rule: visit_visit_deps.induct)
  case (1 ns temp nodeId visited result)
  from "1.prems"(1) have notemp: "nodeId \<notin> set temp"
    by (auto split: if_splits)
  show ?case
  proof (cases "nodeId \<in> set visited")
    case True
    with "1.prems" notemp show ?thesis by auto
  next
    case False
    with "1.prems"(1) notemp obtain node where node: "nodeMap ns nodeId = Some node"
      by (auto split: option.splits)
    with "1.prems"(1) notemp False obtain visited' result'
      where deps: "visit_deps ns (nodeId # temp) (dependencies node) (visited, result)
                     = Inr (visited', result')"
        and st': "st' = (nodeId # visited', node # result')"
      by (auto split: sum.splits)
    from "1.prems"(3) False have disj: "set (nodeId # temp) \<inter> set (fst (visited, result)) = {}"
      by auto
    from "1.IH" [OF notemp False node deps "1.prems"(2) disj]
    have inv: "sort_inv ns (visited', result')"
      and fresh: "set (nodeId # temp) \<inter> set visited' = {}"
      and depsin: "set (dependencies node) \<subseteq> set visited'"
      and mono: "set visited \<subseteq> set visited'"
      by simp_all
    from nodeMap_Some [OF node] have "node \<in> set ns" and "node_id node = nodeId"
      by simp_all
    with inv fresh depsin have "sort_inv ns st'"
      by (auto simp: sort_inv_def st')
    moreover from fresh notemp have "set temp \<inter> set (fst st') = {}"
      by (auto simp: st')
    moreover from mono have "set (fst (visited, result)) \<subseteq> set (fst st')"
      by (auto simp: st')
    ultimately show ?thesis by (simp add: st')
  qed
next
  case (2 ns temp st)
  then show ?case by simp
next
  case (3 ns temp dep deps st)
  from "3.prems"(1) obtain st1 where first: "visit ns temp dep st = Inr st1"
    and rest: "visit_deps ns temp deps st1 = Inr st'"
    by (auto split: sum.splits)
  from "3.IH"(1) [OF first "3.prems"(2,3)]
  have inv1: "sort_inv ns st1" and fresh1: "set temp \<inter> set (fst st1) = {}"
    and dep1: "dep \<in> set (fst st1)" and mono1: "set (fst st) \<subseteq> set (fst st1)"
    by simp_all
  from "3.IH"(2) [OF first rest inv1 fresh1]
  have "sort_inv ns st'" and "set temp \<inter> set (fst st') = {}"
    and "set deps \<subseteq> set (fst st')" and "set (fst st1) \<subseteq> set (fst st')"
    by simp_all
  with dep1 mono1 show ?case by auto
qed

lemma visit_all_invariant:
  "visit_all ns ms st = Inr st' \<Longrightarrow> sort_inv ns st \<Longrightarrow>
     sort_inv ns st' \<and> set (map node_id ms) \<subseteq> set (fst st') \<and> set (fst st) \<subseteq> set (fst st')"
proof (induction ms arbitrary: st)
  case Nil
  then show ?case by simp
next
  case (Cons node rest)
  obtain visited result where st: "st = (visited, result)" by (cases st)
  show ?case
  proof (cases "node_id node \<in> set visited")
    case True
    with Cons.prems st have "visit_all ns rest st = Inr st'" by simp
    from Cons.IH [OF this Cons.prems(2)] True st show ?thesis by auto
  next
    case False
    with Cons.prems(1) st obtain st1 where first: "visit ns [] (node_id node) st = Inr st1"
      and rest: "visit_all ns rest st1 = Inr st'"
      by (auto split: sum.splits)
    from visit_invariant(1) [OF first Cons.prems(2)]
    have inv1: "sort_inv ns st1" and in1: "node_id node \<in> set (fst st1)"
      and mono1: "set (fst st) \<subseteq> set (fst st1)"
      by simp_all
    from Cons.IH [OF rest inv1] in1 mono1 show ?thesis by auto
  qed
qed

lemma topologicalSort_invariant:
  assumes "topologicalSort dag = Inr r"
  shows "distinct (map node_id r) \<and> deps_follow r \<and> set r \<subseteq> set (nodes dag)
     \<and> set (map node_id (nodes dag)) \<subseteq> set (map node_id r)"
proof -
  from assms obtain visited where run: "visit_all (nodes dag) (nodes dag) ([], []) = Inr (visited, r)"
    by (auto simp: topologicalSort_def split: sum.splits)
  have "sort_inv (nodes dag) ([], [])" by (simp add: sort_inv_def)
  from visit_all_invariant [OF run this] show ?thesis
    by (auto simp: sort_inv_def)
qed

lemma deps_follow_member:
  "deps_follow r \<Longrightarrow> n \<in> set r \<Longrightarrow> set (dependencies n) \<subseteq> set (map node_id r)"
  by (induction r) auto

lemma rank_le: "rank r x \<le> length r"
  by (simp add: rank_def length_dropWhile_le)

lemma rank_dependency:
  "deps_follow r \<Longrightarrow> distinct (map node_id r) \<Longrightarrow> n \<in> set r \<Longrightarrow> d \<in> set (dependencies n)
     \<Longrightarrow> rank r d < rank r (node_id n)"
proof (induction r)
  case Nil
  then show ?case by simp
next
  case (Cons m post)
  from Cons.prems(2) have fresh: "node_id m \<notin> set (map node_id post)" and dpost: "distinct (map node_id post)"
    by simp_all
  show ?case
  proof (cases "n = m")
    case True
    with Cons.prems(1,4) have "d \<in> set (map node_id post)" by auto
    with fresh have "d \<noteq> node_id m" by blast
    then have "rank (m # post) d = rank post d" by (simp add: rank_def)
    moreover have "rank (m # post) (node_id n) = Suc (length post)"
      using True by (simp add: rank_def)
    ultimately show ?thesis using rank_le [of post d] by simp
  next
    case False
    with Cons.prems(3) have npost: "n \<in> set post" by simp
    with fresh have "node_id n \<noteq> node_id m" by (metis image_eqI set_map)
    then have rn: "rank (m # post) (node_id n) = rank post (node_id n)"
      by (simp add: rank_def)
    from Cons.prems(1) have fpost: "deps_follow post" by simp
    from deps_follow_member [OF fpost npost] Cons.prems(4) have "d \<in> set (map node_id post)"
      by auto
    with fresh have "d \<noteq> node_id m" by blast
    then have rd: "rank (m # post) d = rank post d" by (simp add: rank_def)
    from Cons.IH [OF fpost dpost npost Cons.prems(4)] rn rd show ?thesis by simp
  qed
qed

lemma path_decreases:
  assumes "(x, y) \<in> E\<^sup>+" and "\<And>a b. (a, b) \<in> E \<Longrightarrow> f b < (f a :: nat)"
  shows "f y < f x"
  using assms(1)
proof (induction rule: trancl_induct)
  case (base y)
  then show ?case by (rule assms(2))
next
  case (step y z)
  from assms(2) [OF step.hyps(2)] step.IH show ?case by simp
qed

text \<open>Where the sort returns, the dependency graph has no cycle.\<close>

lemma topologicalSort_acyclic:
  assumes sorted: "topologicalSort dag = Inr r"
    and unique: "distinct (map node_id (nodes dag))"
  shows "\<not> has_dependency_cycle dag"
proof
  assume "has_dependency_cycle dag"
  then obtain x where cyc: "(x, x) \<in> (dep_edges dag)\<^sup>+"
    by (auto simp: has_dependency_cycle_def)
  from topologicalSort_invariant [OF sorted]
  have dr: "distinct (map node_id r)" and fr: "deps_follow r"
    and sub: "set r \<subseteq> set (nodes dag)"
    and all: "set (map node_id (nodes dag)) \<subseteq> set (map node_id r)"
    by simp_all
  have edge: "rank r b < rank r a" if "(a, b) \<in> dep_edges dag" for a b
  proof -
    from that obtain n where n: "n \<in> set (nodes dag)" and a: "a = node_id n"
      and b: "b \<in> set (dependencies n)"
      by (auto simp: dep_edges_def)
    from n all obtain n' where n': "n' \<in> set r" and same: "node_id n' = node_id n"
      by auto
    from unique have "inj_on node_id (set (nodes dag))" by (simp add: distinct_map)
    with n n' sub same have "n' = n" by (auto dest: inj_onD)
    with n' have "n \<in> set r" by simp
    from rank_dependency [OF fr dr this b] a show ?thesis by simp
  qed
  from path_decreases [OF cyc edge] show False by simp
qed

lemma first_dangling_None:
  "first_dangling ids ns = None \<Longrightarrow> n \<in> set ns \<Longrightarrow> d \<in> set (dependencies n) \<Longrightarrow> d \<in> set ids"
  by (induction ns) (auto simp: find_None_iff split: option.splits)

lemma validateDAG_rejects:
  assumes "has_dependency_cycle dag \<or> has_duplicate_ids dag \<or> has_dangling_dependency dag"
  shows "\<exists>msg. validateDAG dag = Inl (PromptHubMCPError VALIDATION_ERROR msg JUndefined)"
proof (cases "distinct (map node_id (nodes dag))")
  case False
  then have "length (remdups (map node_id (nodes dag))) \<noteq> length (nodes dag)"
    by (metis length_map length_remdups_eq remdups_id_iff_distinct)
  then show ?thesis by (simp add: validateDAG_def)
next
  case True
  then have len: "length (remdups (map node_id (nodes dag))) = length (nodes dag)"
    by (simp add: distinct_remdups_id)
  show ?thesis
  proof (cases "first_dangling (map node_id (nodes dag)) (nodes dag)")
    case (Some pair)
    with len show ?thesis
      by (cases pair) (simp add: validateDAG_def)
  next
    case None
    from first_dangling_None [OF None] have "\<not> has_dangling_dependency dag"
      by (auto simp: has_dangling_dependency_def)
    with assms True have cyc: "has_dependency_cycle dag"
      by (simp add: has_duplicate_ids_def)
    have "hasCycles dag"
    proof (cases "topologicalSort dag")
      case (Inl e)
      then show ?thesis by (simp add: hasCycles_def)
    next
      case (Inr r)
      from topologicalSort_acyclic [OF Inr True] cyc show ?thesis by simp
    qed
    with len None show ?thesis
      by (simp add: validateDAG_def cycle_error_def)
  qed
qed

text \<open>
  Claim C3. When the DAG definition contains a dependency cycle, two nodes with one
  id, or a dependency naming no node, \<^verbatim>\<open>executeDag\<close> returns \<^verbatim>\<open>success = false\<close> with
  empty \<^verbatim>\<open>results\<close> and \<^verbatim>\<open>executionOrder\<close> and the error \<^verbatim>\<open>{nodeId: 'validation', error}\<close>
  where \<^verbatim>\<open>error\<close> is a \<^verbatim>\<open>PromptHubMCPError\<close> with code VALIDATION_ERROR. No node has been
  executed: the state of the collaborators is the initial one, no request id was
  drawn, and the clock was read twice, at the start and for the total time.
\<close>

theorem executeDag_validation_failure:
  assumes "has_dependency_cycle dag \<or> has_duplicate_ids dag \<or> has_dangling_dependency dag"
  shows "\<exists>msg. executeDag rt exec dag rootInputs ctx w =
     (\<lparr>dag_success = False, results = [], executionOrder = [],
       totalExecutionTime = clock rt (Suc (ticks w)) - clock rt (ticks w),
       dag_error = Some \<lparr>nodeId = ''validation'',
                          failure = Thrown (PromptHubMCPError VALIDATION_ERROR msg JUndefined)\<rparr>\<rparr>,
      w\<lparr>ticks := Suc (Suc (ticks w))\<rparr>)"
proof -
  from validateDAG_rejects [OF assms] obtain msg
    where "validateDAG dag = Inl (PromptHubMCPError VALIDATION_ERROR msg JUndefined)" ..
  then have "executeDag rt exec dag rootInputs ctx w =
     (\<lparr>dag_success = False, results = [], executionOrder = [],
       totalExecutionTime = clock rt (Suc (ticks w)) - clock rt (ticks w),
       dag_error = Some \<lparr>nodeId = ''validation'',
                          failure = Thrown (PromptHubMCPError VALIDATION_ERROR msg JUndefined)\<rparr>\<rparr>,
      w\<lparr>ticks := Suc (Suc (ticks w))\<rparr>)"
    by (simp add: executeDag_def validation_failure_def Date_now_def)
  then show ?thesis ..
qed

theorem executeDag_validation_failure_witness:
  "\<exists>msg. executeDag (example_runtime 0) (example_exec [])
      (example_dag [example_node ''A'' [] [''B''], example_node ''B'' [] [''A'']])
      [] None example_world =
     (\<lparr>dag_success = False, results = [], executionOrder = [],
       totalExecutionTime = 1,
       dag_error = Some \<lparr>nodeId = ''validation'',
                          failure = Thrown (PromptHubMCPError VALIDATION_ERROR msg JUndefined)\<rparr>\<rparr>,
      \<lparr>ticks = 2, uuids = 0, ext = ()\<rparr>)"
proof -
  let ?dag = "example_dag [example_node ''A'' [] [''B''], example_node ''B'' [] [''A'']]"
  have ab: "(''A'', ''B'') \<in> dep_edges ?dag"
    by (simp add: dep_edges_def example_dag_def example_node_def)
      (rule exI [of _ "example_node ''A'' [] [''B'']"], simp add: example_node_def)
  have ba: "(''B'', ''A'') \<in> dep_edges ?dag"
    by (simp add: dep_edges_def example_dag_def example_node_def)
      (rule exI [of _ "example_node ''B'' [] [''A'']"], simp add: example_node_def)
  from ab ba have "(''A'', ''A'') \<in> (dep_edges ?dag)\<^sup>+" by (rule trancl_into_trancl2 [OF _ r_into_trancl])
  then have "has_dependency_cycle ?dag"
    by (auto simp: has_dependency_cycle_def)
  then have "has_dependency_cycle ?dag \<or> has_duplicate_ids ?dag \<or> has_dangling_dependency ?dag"
    by simp
  from executeDag_validation_failure [OF this, of "example_runtime 0" "example_exec []" "[]"
      None example_world]
  show ?thesis
    by (simp add: example_runtime_def example_world_def numeral_2_eq_2)
qed


section \<open>Further properties of the code\<close>

subsection \<open>The order computed by topologicalSort\<close>

lemma validateDAG_accepts:
  assumes "validateDAG dag = Inr ()"
  shows "distinct (map node_id (nodes dag)) \<and> (\<exists>r. topologicalSort dag = Inr r)"
proof -
  from assms have len: "length (remdups (map node_id (nodes dag))) = length (nodes dag)"
    and nocyc: "\<not> hasCycles dag"
    by (auto simp: validateDAG_def Let_def split: if_splits option.splits)
  from len have "distinct (map node_id (nodes dag))"
    by (metis length_map length_remdups_eq remdups_id_iff_distinct)
  moreover from nocyc have "\<exists>r. topologicalSort dag = Inr r"
    by (cases "topologicalSort dag") (simp_all add: hasCycles_def)
  ultimately show ?thesis by simp
qed

text \<open>
  Property X1. For a DAG that passes validation, \<^verbatim>\<open>topologicalSort\<close> returns every node exactly once,
  and in the returned list every node stands before all of its dependencies: the list
  is a topological order read backwards.
\<close>

theorem topologicalSort_dependents_first:
  assumes "validateDAG dag = Inr ()"
  shows "\<exists>r. topologicalSort dag = Inr r \<and> distinct (map node_id r)
           \<and> set r = set (nodes dag) \<and> deps_follow r"
proof -
  from validateDAG_accepts [OF assms] obtain r
    where unique: "distinct (map node_id (nodes dag))" and r: "topologicalSort dag = Inr r"
    by blast
  from topologicalSort_invariant [OF r]
  have dr: "distinct (map node_id r)" and fr: "deps_follow r"
    and sub: "set r \<subseteq> set (nodes dag)"
    and all: "set (map node_id (nodes dag)) \<subseteq> set (map node_id r)"
    by simp_all
  have "n \<in> set r" if n: "n \<in> set (nodes dag)" for n
  proof -
    from n all obtain n' where n': "n' \<in> set r" and same: "node_id n' = node_id n"
      by auto
    from unique have "inj_on node_id (set (nodes dag))" by (simp add: distinct_map)
    with n n' sub same have "n' = n" by (auto dest: inj_onD)
    with n' show ?thesis by simp
  qed
  with sub have "set r = set (nodes dag)" by auto
  with r dr fr show ?thesis by blast
qed

theorem topologicalSort_dependents_first_witness:
  "\<exists>r. topologicalSort (example_dag [example_node ''A'' [] [], example_node ''B'' [] [''A''],
                                      example_node ''C'' [] [''B'']]) = Inr r
       \<and> map node_id r = [''C'', ''B'', ''A''] \<and> deps_follow r"
proof -
  let ?dag = "example_dag [example_node ''A'' [] [], example_node ''B'' [] [''A''],
                           example_node ''C'' [] [''B'']]"
  have "validateDAG ?dag = Inr ()"
    by (simp add: executeDag_example_defs)
  from topologicalSort_dependents_first [OF this] obtain r
    where r: "topologicalSort ?dag = Inr r" and f: "deps_follow r"
    by auto
  from r have "map node_id r = [''C'', ''B'', ''A'']"
    by (auto simp: executeDag_example_defs)
  with r f show ?thesis by (intro exI [of _ r]) simp
qed

subsection \<open>Fail-fast execution\<close>

text \<open>The state of the loop of \<^verbatim>\<open>executeDag\<close> after it has stopped, in terms of the
  number \<open>k\<close> of nodes whose result was recorded.\<close>

lemma keys_insert_index:
  "fst ` set (insert_index i e obj) = insert (fst e) (fst ` set obj)"
  by (induction obj) (auto split: option.splits)

lemma keys_update: "fst ` set (AList.update k v obj) = insert k (fst ` set obj)"
proof -
  have "set (map fst (AList.update k v obj)) = insert k (set (map fst obj))"
    by (auto simp: update_keys simp del: set_map)
  then show ?thesis by simp
qed

lemma keys_js_define: "fst ` set (js_define k v obj) = insert k (fst ` set obj)"
proof (cases "k \<in> set (map fst obj)")
  case True
  then show ?thesis by (simp add: js_define_def keys_update)
next
  case False
  then show ?thesis
    by (cases "array_index k") (simp_all add: js_define_def keys_insert_index)
qed

lemma keys_js_set:
  "k \<noteq> ''__proto__'' \<Longrightarrow> fst ` set (js_set k v obj) = insert k (fst ` set obj)"
  by (simp add: js_set_def keys_js_define)

lemma keys_js_set_subset: "fst ` set (js_set k v obj) \<subseteq> insert k (fst ` set obj)"
proof (cases "k = ''__proto__'' \<and> k \<notin> set (map fst obj)")
  case True
  then show ?thesis by (auto simp: js_set_def)
next
  case False
  then have "js_set k v obj = js_define k v obj" by (auto simp: js_set_def)
  then show ?thesis by (simp add: keys_js_define)
qed

lemma run_nodes_prefix:
  assumes "''__proto__'' \<notin> set (map node_id ns)" and "set (map fst res) = set ord"
  shows "case run_nodes rt exec rootInputs ctx startTime ns res ord w of
      (r, w') \<Rightarrow>
        \<exists>k\<le>length ns.
          executionOrder r = ord @ map node_id (take k ns)
          \<and> set (map fst (results r)) = set (executionOrder r)
          \<and> (dag_success r \<longrightarrow> k = length ns \<and> dag_error r = None)
          \<and> (\<not> dag_success r \<longrightarrow>
                (\<exists>err. dag_error r = Some err
                   \<and> (case failure err of
                          NodeFailure e \<Rightarrow> 0 < k \<and> nodeId err = node_id (ns ! (k - 1))
                        | Thrown e \<Rightarrow> k < length ns \<and> nodeId err = node_id (ns ! k))))"
  using assms
proof (induction ns arbitrary: res ord w)
  case Nil
  show ?case
    using Nil.prems(2) by (simp add: Date_now_def)
next
  case (Cons node rest)
  let ?w1 = "w\<lparr>ticks := Suc (ticks w)\<rparr>"
  let ?w2 = "?w1\<lparr>uuids := Suc (uuids ?w1)\<rparr>"
  let ?call = "exec (promptId node) (prepareNodeInputs node rootInputs res)
      \<lparr>caller = context_caller ctx, modelProvider = context_modelProvider ctx,
       timestamp = clock rt (ticks w), requestId = uuid rt (uuids ?w1),
       previousOutputs = res\<rparr> (version node) ?w2"
  obtain outcome w3 where call: "?call = (outcome, w3)" by (cases ?call)
  from Cons.prems(1) have plain: "node_id node \<noteq> ''__proto__''"
    and rest_plain: "''__proto__'' \<notin> set (map node_id rest)"
    by auto
  show ?case
  proof (cases outcome)
    case (Inl e)
    have "run_nodes rt exec rootInputs ctx startTime (node # rest) res ord w =
        (\<lparr>dag_success = False, results = res, executionOrder = ord,
          totalExecutionTime = clock rt (ticks w3) - startTime,
          dag_error = Some \<lparr>nodeId = node_id node, failure = Thrown e\<rparr>\<rparr>,
         w3\<lparr>ticks := Suc (ticks w3)\<rparr>)"
      using call Inl by (simp add: Date_now_def uuidv4_def Let_def)
    then show ?thesis
      using Cons.prems(2) by (auto intro!: exI [of _ 0])
  next
    case (Inr nodeResult)
    let ?res' = "js_set (node_id node) nodeResult res"
    let ?ord' = "ord @ [node_id node]"
    from plain Cons.prems(2) have keys: "set (map fst ?res') = set ?ord'"
      by (simp add: keys_js_set)
    show ?thesis
    proof (cases "success nodeResult")
      case False
      have "run_nodes rt exec rootInputs ctx startTime (node # rest) res ord w =
          (\<lparr>dag_success = False, results = ?res', executionOrder = ?ord',
            totalExecutionTime = clock rt (ticks w3) - startTime,
            dag_error = Some \<lparr>nodeId = node_id node,
                               failure = NodeFailure (error nodeResult)\<rparr>\<rparr>,
           w3\<lparr>ticks := Suc (ticks w3)\<rparr>)"
        using call Inr False by (simp add: Date_now_def uuidv4_def Let_def)
      then show ?thesis
        using keys by (auto intro!: exI [of _ "Suc 0"])
    next
      case True
      have step: "run_nodes rt exec rootInputs ctx startTime (node # rest) res ord w =
          run_nodes rt exec rootInputs ctx startTime rest ?res' ?ord' w3"
        using call Inr True by (simp add: Date_now_def uuidv4_def Let_def)
      obtain r w' where out: "run_nodes rt exec rootInputs ctx startTime rest ?res' ?ord' w3 = (r, w')"
        by (cases "run_nodes rt exec rootInputs ctx startTime rest ?res' ?ord' w3")
      from Cons.IH [OF rest_plain keys, of w3] out obtain k where k: "k \<le> length rest"
        and order: "executionOrder r = ?ord' @ map node_id (take k rest)"
        and keys': "set (map fst (results r)) = set (executionOrder r)"
        and ok: "dag_success r \<longrightarrow> k = length rest \<and> dag_error r = None"
        and bad: "\<not> dag_success r \<longrightarrow>
                (\<exists>err. dag_error r = Some err
                   \<and> (case failure err of
                          NodeFailure e \<Rightarrow> 0 < k \<and> nodeId err = node_id (rest ! (k - 1))
                        | Thrown e \<Rightarrow> k < length rest \<and> nodeId err = node_id (rest ! k)))"
        by auto
      have "Suc k \<le> length (node # rest)" using k by simp
      moreover have "executionOrder r = ord @ map node_id (take (Suc k) (node # rest))"
        using order by simp
      moreover have "dag_success r \<longrightarrow> Suc k = length (node # rest) \<and> dag_error r = None"
        using ok by simp
      moreover have "\<not> dag_success r \<longrightarrow>
                (\<exists>err. dag_error r = Some err
                   \<and> (case failure err of
                          NodeFailure e \<Rightarrow> 0 < Suc k
                            \<and> nodeId err = node_id ((node # rest) ! (Suc k - 1))
                        | Thrown e \<Rightarrow> Suc k < length (node # rest)
                            \<and> nodeId err = node_id ((node # rest) ! Suc k)))"
      proof
        assume "\<not> dag_success r"
        with bad obtain err where err: "dag_error r = Some err"
          and f: "case failure err of
                          NodeFailure e \<Rightarrow> 0 < k \<and> nodeId err = node_id (rest ! (k - 1))
                        | Thrown e \<Rightarrow> k < length rest \<and> nodeId err = node_id (rest ! k)"
          by blast
        from f have "case failure err of
                          NodeFailure e \<Rightarrow> 0 < Suc k
                            \<and> nodeId err = node_id ((node # rest) ! (Suc k - 1))
                        | Thrown e \<Rightarrow> Suc k < length (node # rest)
                            \<and> nodeId err = node_id ((node # rest) ! Suc k)"
          by (cases "failure err") (auto simp: nth_Cons')
        with err show "\<exists>err. dag_error r = Some err
                   \<and> (case failure err of
                          NodeFailure e \<Rightarrow> 0 < Suc k
                            \<and> nodeId err = node_id ((node # rest) ! (Suc k - 1))
                        | Thrown e \<Rightarrow> Suc k < length (node # rest)
                            \<and> nodeId err = node_id ((node # rest) ! Suc k))"
          by blast
      qed
      ultimately show ?thesis
        unfolding step out using keys' by (auto intro!: exI [of _ "Suc k"])
    qed
  qed
qed

text \<open>
  Property X2. For a DAG that passes validation and has no node of the id
  \<^verbatim>\<open>__proto__\<close>, the nodes \<^verbatim>\<open>executeDag\<close> has run are a prefix of the
  order computed by \<^verbatim>\<open>topologicalSort\<close>, \<^verbatim>\<open>results\<close> has an entry for exactly the ids in
  \<^verbatim>\<open>executionOrder\<close>, and a run reports success exactly when it has no error and ran
  every node. When a node returned an unsuccessful result it is the last id of
  \<^verbatim>\<open>executionOrder\<close> and \<^verbatim>\<open>error.nodeId\<close> names it; when the execution threw, the node
  named is the first one not recorded.
\<close>

theorem executeDag_fail_fast:
  assumes "validateDAG dag = Inr ()"
    and "''__proto__'' \<notin> set (map node_id (nodes dag))"
  shows "case executeDag rt exec dag rootInputs ctx w of
      (r, w') \<Rightarrow>
        \<exists>sortedNodes k.
          topologicalSort dag = Inr sortedNodes \<and> k \<le> length sortedNodes
          \<and> executionOrder r = map node_id (take k sortedNodes)
          \<and> set (map fst (results r)) = set (executionOrder r)
          \<and> (dag_success r \<longrightarrow> k = length sortedNodes \<and> dag_error r = None)
          \<and> (\<not> dag_success r \<longrightarrow>
                (\<exists>err. dag_error r = Some err
                   \<and> (case failure err of
                          NodeFailure e \<Rightarrow> 0 < k \<and> nodeId err = node_id (sortedNodes ! (k - 1))
                        | Thrown e \<Rightarrow> k < length sortedNodes
                            \<and> nodeId err = node_id (sortedNodes ! k))))"
proof -
  from validateDAG_accepts [OF assms(1)] obtain sortedNodes
    where s: "topologicalSort dag = Inr sortedNodes"
    by auto
  from topologicalSort_invariant [OF s] assms(2)
  have d: "''__proto__'' \<notin> set (map node_id sortedNodes)"
    by auto
  have run: "executeDag rt exec dag rootInputs ctx w =
      run_nodes rt exec rootInputs ctx (clock rt (ticks w)) sortedNodes [] []
        (w\<lparr>ticks := Suc (ticks w)\<rparr>)"
    using assms s by (simp add: executeDag_def Date_now_def)
  have e: "set (map fst ([] :: node_results)) = set ([] :: string list)" by simp
  from run_nodes_prefix [OF d e, of rt exec rootInputs ctx "clock rt (ticks w)"
      "w\<lparr>ticks := Suc (ticks w)\<rparr>"]
  show ?thesis
    unfolding run using s by (auto simp: case_prod_beta)
qed

theorem executeDag_fail_fast_witness:
  "\<exists>sortedNodes.
      topologicalSort (example_dag [example_node ''A'' [] [], example_node ''B'' [] [''A''],
                                    example_node ''C'' [] [''B'']]) = Inr sortedNodes
      \<and> executionOrder (fst (executeDag (example_runtime 0) (example_exec [''B''])
            (example_dag [example_node ''A'' [] [], example_node ''B'' [] [''A''],
                          example_node ''C'' [] [''B'']]) [] None example_world))
          = map node_id (take 2 sortedNodes)"
proof -
  let ?dag = "example_dag [example_node ''A'' [] [], example_node ''B'' [] [''A''],
                           example_node ''C'' [] [''B'']]"
  have v: "validateDAG ?dag = Inr ()"
    by (simp add: executeDag_example_defs)
  have p: "''__proto__'' \<notin> set (map node_id (nodes ?dag))"
    by (simp add: example_dag_def example_node_def)
  from executeDag_fail_fast [OF v p, of "example_runtime 0" "example_exec [''B'']" "[]" None
      example_world]
  obtain sortedNodes where s: "topologicalSort ?dag = Inr sortedNodes"
    by (auto simp: case_prod_beta)
  then have "sortedNodes = [example_node ''C'' [] [''B''], example_node ''B'' [] [''A''],
                           example_node ''A'' [] []]"
    by (auto simp: executeDag_example_defs)
  moreover have "executionOrder (fst (executeDag (example_runtime 0) (example_exec [''B''])
      ?dag [] None example_world)) = [''C'', ''B'']"
    by (simp add: executeDag_example_defs)
  ultimately show ?thesis
    using s by (simp add: example_node_def numeral_2_eq_2)
qed

subsection \<open>The execution count for serialisable inputs\<close>

lemma hash_json_serialisable:
  "serialisable v \<Longrightarrow> \<exists>h. hash_json rt v = Inr h"
  by (cases "v = JUndefined") (simp_all add: hash_json_def JSON_stringify_def)

lemma schema_string:
  assumes "safeParse_issues ExecutionContextSchema ctx = []"
  shows "serialisable (js_get ctx ''caller'') \<and> serialisable (js_get ctx ''timestamp'')"
proof -
  from assms have "is_string (js_get ctx ''caller'')" and "is_number (js_get ctx ''timestamp'')"
    by (auto simp: safeParse_issues_def ExecutionContextSchema_def split: if_splits)
  then show ?thesis
    by (cases "js_get ctx ''caller''"; cases "js_get ctx ''timestamp''") simp_all
qed

lemma generateExecutionSignature_returns:
  assumes "serialisable (JObj input)" and "serialisable out"
    and "safeParse_issues ExecutionContextSchema ctx = []"
  shows "\<exists>sig. generateExecutionSignature rt defn executionId input out ctx = Inr sig"
proof -
  from hash_json_serialisable [OF assms(1)] obtain h1 where h1: "hash_json rt (JObj input) = Inr h1" ..
  from hash_json_serialisable [OF assms(2)] obtain h2 where h2: "hash_json rt out = Inr h2" ..
  from schema_string [OF assms(3)]
  have "serialisable (JObj [(''executionId'', JStr executionId),
                                   (''promptId'', JStr (def_id defn)),
                                   (''version'', JStr (def_version defn)),
                                   (''inputHash'', JStr h1),
                                   (''outputHash'', JStr h2),
                                   (''caller'', js_get ctx ''caller''),
                                   (''timestamp'', js_get ctx ''timestamp'')])"
    by simp
  from hash_json_serialisable [OF this] h1 h2 show ?thesis
    by (simp add: generateExecutionSignature_def)
qed

lemma execute_try_throw_count:
  assumes "execute_try rt input ctx startTime executionId m w = (Inl e, m', w')"
    and "serialisable (JObj input)"
  shows "m' = m"
proof (cases "safeParse_issues ExecutionContextSchema ctx = []")
  case False
  with assms(1) show ?thesis by (simp add: execute_try_def Let_def)
next
  case True
  have sig: "\<exists>sig. generateExecutionSignature rt (definition_of m) executionId input out ctx = Inr sig"
    if "serialisable out" for out
    using generateExecutionSignature_returns [OF assms(2) that True] .
  have out: "serialisable (fst (executePrompt rt (definition_of m) p ctx executionId w1))" for p w1
    by (simp add: executePrompt_def Date_now_def)
  show ?thesis
    using assms(1) True
    unfolding execute_try_def Let_def
    apply (simp split: sum.splits if_splits prod.splits)
    using sig out
    apply (metis fst_conv sum.distinct(1))
    done
qed

text \<open>
  Property X3. When the input holds no BigInt, a call of \<^verbatim>\<open>execute\<close> that succeeds raises the
  execution count shown by \<^verbatim>\<open>getMetadata\<close> by one, and a call that fails leaves the
  module as it was.
\<close>

theorem execute_count_serialisable:
  assumes "serialisable (JObj input)"
  shows "case execute rt input ctx m w of
      (r, m', w') \<Rightarrow>
        md_executionCount (getMetadata m')
          = (if resp_success r then md_executionCount (getMetadata m) + 1
             else md_executionCount (getMetadata m))
        \<and> (\<not> resp_success r \<longrightarrow> m' = m)"
proof -
  let ?w2 = "w\<lparr>ticks := Suc (ticks w), uuids := Suc (uuids w)\<rparr>"
  let ?st = "clock rt (ticks w)"
  obtain res m1 w1 where body:
    "execute_try rt input ctx ?st (uuid rt (uuids w)) m ?w2 = (res, m1, w1)"
    by (cases "execute_try rt input ctx ?st (uuid rt (uuids w)) m ?w2") auto
  show ?thesis
  proof (cases res)
    case (Inl e)
    from execute_try_throw_count [OF body [unfolded Inl] assms] have "m1 = m" .
    then show ?thesis
      using body Inl by (simp add: execute_def Date_now_def uuidv4_def Let_def)
  next
    case (Inr r)
    from execute_try_return [OF body [unfolded Inr]]
    have "resp_success r" and "executionCount m1 = executionCount m + 1" by simp_all
    then show ?thesis
      using body Inr by (simp add: execute_def Date_now_def uuidv4_def Let_def getMetadata_def)
  qed
qed

theorem execute_count_serialisable_witness:
  "resp_success (fst (execute (example_runtime 0) [(''text'', JStr ''Hello world'')]
        (example_context ''test-caller'' ''test-request-id'')
        (example_module (example_policy Public None None)) example_world))
   \<and> md_executionCount (getMetadata (fst (snd (execute (example_runtime 0)
        [(''text'', JStr ''Hello world'')]
        (example_context ''test-caller'' ''test-request-id'')
        (example_module (example_policy Public None None)) example_world)))) = 1"
proof -
  let ?call = "execute (example_runtime 0) [(''text'', JStr ''Hello world'')]
        (example_context ''test-caller'' ''test-request-id'')
        (example_module (example_policy Public None None)) example_world"
  have s: "serialisable (JObj [(''text'', JStr ''Hello world'')])" by simp
  have ok: "resp_success (fst ?call)"
    by (simp add: execute_example_defs)
  from execute_count_serialisable [OF s, where rt = "example_runtime 0"
      and ctx = "example_context ''test-caller'' ''test-request-id''"
      and m = "example_module (example_policy Public None None)" and w = example_world]
  have "md_executionCount (getMetadata (fst (snd ?call)))
      = (if resp_success (fst ?call)
         then md_executionCount (getMetadata (example_module (example_policy Public None None))) + 1
         else md_executionCount (getMetadata (example_module (example_policy Public None None))))"
    by (simp add: case_prod_beta)
  with ok show ?thesis
    by (simp add: getMetadata_def example_module_def)
qed



subsection \<open>What prepareNodeInputs builds\<close>

lemma map_of_insert_index:
  "k \<notin> set (map fst obj) \<Longrightarrow> map_of (insert_index i (k, v) obj) = (map_of obj)(k \<mapsto> v)"
proof (induction obj)
  case Nil
  show ?case by simp
next
  case (Cons p ps)
  then have "k \<noteq> fst p" and "k \<notin> set (map fst ps)" by auto
  with Cons.IH show ?case
    by (cases p) (auto simp: fun_upd_twist split: option.splits)
qed

lemma map_of_snoc_fresh:
  "k \<notin> set (map fst obj) \<Longrightarrow> map_of (obj @ [(k, v)]) = (map_of obj)(k \<mapsto> v)"
  by (induction obj) (auto simp: fun_upd_twist)

lemma map_of_js_define: "map_of (js_define k v obj) = (map_of obj)(k \<mapsto> v)"
proof (cases "k \<in> set (map fst obj)")
  case True
  then have "js_define k v obj = AList.update k v obj" by (simp add: js_define_def)
  then show ?thesis by (simp add: update_conv')
next
  case False
  show ?thesis
  proof (cases "array_index k")
    case None
    with False have "js_define k v obj = obj @ [(k, v)]" by (simp add: js_define_def)
    with map_of_snoc_fresh [OF False] show ?thesis by simp
  next
    case (Some i)
    with False have "js_define k v obj = insert_index i (k, v) obj" by (simp add: js_define_def)
    with map_of_insert_index [OF False] show ?thesis by simp
  qed
qed

lemma map_of_js_set:
  "k' \<noteq> ''__proto__'' \<Longrightarrow> map_of (js_set k v obj) k' = ((map_of obj)(k \<mapsto> v)) k'"
  by (simp add: js_set_def map_of_js_define)

lemma map_of_fold_js_define:
  "map_of (fold (\<lambda>(k, v) t. js_define k v t) src target) = map_of target ++ map_of (rev src)"
proof (induction src arbitrary: target)
  case Nil
  show ?case by simp
next
  case (Cons e src)
  obtain k v where e: "e = (k, v)" by (cases e)
  show ?case
    by (simp add: e Cons.IH map_of_js_define fun_eq_iff map_add_def split: option.splits)
qed

lemma map_of_spread: "map_of (spread obj) = map_of (rev obj)"
  by (simp add: spread_def map_of_fold_js_define)

lemma map_of_assign_entries:
  assumes "k' \<noteq> ''__proto__''"
  shows "map_of (assign_entries target src) k' = (map_of target ++ map_of (rev src)) k'"
  unfolding assign_entries_def
proof (induction src arbitrary: target)
  case Nil
  show ?case by simp
next
  case (Cons e src)
  obtain k v where e: "e = (k, v)" by (cases e)
  show ?case
    using assms
    by (simp add: e Cons.IH map_of_js_set map_add_def split: option.splits)
qed

lemma map_of_rev_later_wins: "map_of (rev es) = later_wins es"
proof (induction es rule: rev_induct)
  case Nil
  show ?case by (simp add: later_wins_def fun_eq_iff)
next
  case (snoc e es)
  show ?case
  proof
    fix k
    show "map_of (rev (es @ [e])) k = later_wins (es @ [e]) k"
      using snoc[THEN fun_cong, of k]
      by (cases e) (auto simp: later_wins_def split: list.splits)
  qed
qed

lemma map_of_fold_merge_dependency:
  assumes "k' \<noteq> ''__proto__''"
  shows "map_of (fold (merge_dependency prev) deps acc) k' =
     (map_of acc ++ map_of (rev (concat (map (dependency_contribution prev) deps)))) k'"
proof (induction deps arbitrary: acc)
  case Nil
  show ?case by simp
next
  case (Cons d deps)
  have step: "map_of (merge_dependency prev d acc) k' =
      (map_of acc ++ map_of (rev (dependency_contribution prev d))) k'"
    by (simp add: merge_dependency_def dependency_contribution_def map_of_assign_entries [OF assms]
        split: option.splits)
  show ?case
    using step by (simp add: Cons.IH map_add_def split: option.splits)
qed

text \<open>
  Property X4. For every key other than \<^verbatim>\<open>__proto__\<close>, the object that
  \<^verbatim>\<open>prepareNodeInputs\<close> returns for a node, root inputs and an object of previous results
  has the value written last in the sequence: literal inputs of the node, then the
  output properties of each listed dependency that has a successful result with a
  non-null object as output among the previous results (in the order of the dependency
  list), then the root inputs.
\<close>

theorem prepareNodeInputs_later_wins:
  assumes "k \<noteq> ''__proto__''"
  shows "map_of (prepareNodeInputs node rootInputs previousResults) k =
     later_wins (merge_layers node rootInputs previousResults) k"
  by (simp add: prepareNodeInputs_def merge_layers_def map_of_assign_entries [OF assms]
      map_of_fold_merge_dependency [OF assms] map_of_spread map_of_rev_later_wins [symmetric]
      map_add_def split: option.splits)

theorem prepareNodeInputs_later_wins_witness:
  "map_of (prepareNodeInputs (example_node ''n'' [(''x'', JNum 1)] [''d'']) [(''x'', JNum 4)]
        [(''d'', example_result True (JObj [(''x'', JNum 2), (''y'', JNum 3)]))]) ''y''
     = Some (JNum 3)"
proof -
  have k: "''y'' \<noteq> ''__proto__''" by simp
  show ?thesis
    using prepareNodeInputs_later_wins [OF k, of "example_node ''n'' [(''x'', JNum 1)] [''d'']"
        "[(''x'', JNum 4)]"
        "[(''d'', example_result True (JObj [(''x'', JNum 2), (''y'', JNum 3)]))]"]
    by (simp add: later_wins_def merge_layers_def dependency_contribution_def
        example_node_def example_result_def)
qed

subsection \<open>Dependency outputs never reach a node\<close>

lemma merge_dependency_unrecorded:
  "dep \<notin> set (map fst res) \<Longrightarrow> merge_dependency res dep acc = acc"
  by (simp add: merge_dependency_def map_of_eq_None_iff [THEN iffD2])

lemma prepareNodeInputs_unrecorded:
  assumes "set (dependencies node) \<inter> set (map fst res) = {}"
  shows "prepareNodeInputs node rootInputs res
     = prepareNodeInputs (without_dependencies node) rootInputs res"
proof -
  have "fold (merge_dependency res) deps acc = acc"
    if "set deps \<inter> set (map fst res) = {}" for deps acc
    using that by (induction deps arbitrary: acc) (simp_all add: merge_dependency_unrecorded)
  from this [OF assms] show ?thesis
    by (simp add: prepareNodeInputs_def without_dependencies_def)
qed

lemma run_nodes_without_dependencies:
  assumes "deps_follow ns" and "distinct (ord @ map node_id ns)"
    and "set (map fst res) \<subseteq> set ord"
  shows "run_nodes rt exec rootInputs ctx startTime ns res ord w
     = run_nodes rt exec rootInputs ctx startTime (map without_dependencies ns) res ord w"
  using assms
proof (induction ns arbitrary: res ord w)
  case Nil
  show ?case by simp
next
  case (Cons node rest)
  from Cons.prems(1) have deps: "set (dependencies node) \<subseteq> set (map node_id rest)"
    and follow: "deps_follow rest"
    by simp_all
  from Cons.prems(2) deps have "set (dependencies node) \<inter> set ord = {}"
    by auto
  with Cons.prems(3) have "set (dependencies node) \<inter> set (map fst res) = {}"
    by auto
  from prepareNodeInputs_unrecorded [OF this]
  have inputs_eq: "prepareNodeInputs node rootInputs res
      = prepareNodeInputs (without_dependencies node) rootInputs res" .
  have next_step: "run_nodes rt exec rootInputs ctx startTime rest
        (js_set (node_id node) nodeResult res) (ord @ [node_id node]) w3
      = run_nodes rt exec rootInputs ctx startTime (map without_dependencies rest)
        (js_set (node_id node) nodeResult res) (ord @ [node_id node]) w3"
    for nodeResult w3
  proof (rule Cons.IH [OF follow])
    from Cons.prems(2) show "distinct ((ord @ [node_id node]) @ map node_id rest)" by simp
    have "fst ` set (js_set (node_id node) nodeResult res)
        \<subseteq> insert (node_id node) (fst ` set res)"
      by (rule keys_js_set_subset)
    also from Cons.prems(3) have "\<dots> \<subseteq> set (ord @ [node_id node])" by auto
    finally show "set (map fst (js_set (node_id node) nodeResult res))
        \<subseteq> set (ord @ [node_id node])"
      by simp
  qed
  have fields: "node_id (without_dependencies node) = node_id node"
    "promptId (without_dependencies node) = promptId node"
    "version (without_dependencies node) = version node"
    by (simp_all add: without_dependencies_def)
  show ?case
    unfolding list.map run_nodes.simps fields inputs_eq [symmetric] Let_def next_step
    by (rule refl)
qed

text \<open>
  Property X5. For a DAG that passes validation and has no node of the id \<^verbatim>\<open>__proto__\<close>
  (an assignment to that id would replace the prototype of \<^verbatim>\<open>results\<close>, which the
  model does not follow), \<^verbatim>\<open>executeDag\<close> runs exactly as if no node listed any
  dependency: every node is executed before all of its dependencies, so the loop over
  \<^verbatim>\<open>node.dependencies\<close> in \<^verbatim>\<open>prepareNodeInputs\<close> never finds a recorded result, and the
  input of every node is its literal inputs overwritten by the root inputs.
\<close>

theorem executeDag_ignores_dependencies:
  assumes "validateDAG dag = Inr ()"
    and "''__proto__'' \<notin> set (map node_id (nodes dag))"
  shows "\<exists>sortedNodes. topologicalSort dag = Inr sortedNodes
     \<and> executeDag rt exec dag rootInputs ctx w
         = run_nodes rt exec rootInputs ctx (clock rt (ticks w))
             (map without_dependencies sortedNodes) [] [] (w\<lparr>ticks := Suc (ticks w)\<rparr>)"
proof -
  from validateDAG_accepts [OF assms(1)] obtain sortedNodes
    where s: "topologicalSort dag = Inr sortedNodes"
    by auto
  from topologicalSort_invariant [OF s]
  have d: "distinct ([] @ map node_id sortedNodes)" and f: "deps_follow sortedNodes"
    by simp_all
  have e: "set (map fst ([] :: node_results)) \<subseteq> set ([] :: string list)" by simp
  have "executeDag rt exec dag rootInputs ctx w =
      run_nodes rt exec rootInputs ctx (clock rt (ticks w)) sortedNodes [] []
        (w\<lparr>ticks := Suc (ticks w)\<rparr>)"
    using assms(1) s by (simp add: executeDag_def Date_now_def)
  with run_nodes_without_dependencies [OF f d e] s show ?thesis by simp
qed

theorem executeDag_ignores_dependencies_witness:
  "\<exists>sortedNodes.
      topologicalSort (example_dag [example_node ''d'' [] [],
                                    example_node ''n'' [(''x'', JNum 1)] [''d'']])
        = Inr sortedNodes
      \<and> map node_id sortedNodes = [''n'', ''d'']
      \<and> executeDag (example_runtime 0)
           (example_echo_exec ''d'' (JObj [(''x'', JNum 2), (''y'', JNum 3)]))
           (example_dag [example_node ''d'' [] [], example_node ''n'' [(''x'', JNum 1)] [''d'']])
           [(''x'', JNum 4)] None example_world
         = run_nodes (example_runtime 0)
             (example_echo_exec ''d'' (JObj [(''x'', JNum 2), (''y'', JNum 3)]))
             [(''x'', JNum 4)] None 0 (map without_dependencies sortedNodes) [] []
             \<lparr>ticks = 1, uuids = 0, ext = ()\<rparr>"
proof -
  let ?dag = "example_dag [example_node ''d'' [] [], example_node ''n'' [(''x'', JNum 1)] [''d'']]"
  have v: "validateDAG ?dag = Inr ()"
    by (simp add: executeDag_example_defs)
  have p: "''__proto__'' \<notin> set (map node_id (nodes ?dag))"
    by (simp add: example_dag_def example_node_def)
  from executeDag_ignores_dependencies [OF v p, of "example_runtime 0"
      "example_echo_exec ''d'' (JObj [(''x'', JNum 2), (''y'', JNum 3)])" "[(''x'', JNum 4)]"
      None example_world]
  obtain sortedNodes where s: "topologicalSort ?dag = Inr sortedNodes"
    and run: "executeDag (example_runtime 0)
           (example_echo_exec ''d'' (JObj [(''x'', JNum 2), (''y'', JNum 3)])) ?dag
           [(''x'', JNum 4)] None example_world
         = run_nodes (example_runtime 0)
             (example_echo_exec ''d'' (JObj [(''x'', JNum 2), (''y'', JNum 3)]))
             [(''x'', JNum 4)] None (clock (example_runtime 0) (ticks example_world))
             (map without_dependencies sortedNodes) [] []
             (example_world\<lparr>ticks := Suc (ticks example_world)\<rparr>)"
    by auto
  from s have "map node_id sortedNodes = [''n'', ''d'']"
    by (auto simp: executeDag_example_defs)
  with s run show ?thesis
    by (intro exI [of _ sortedNodes]) (simp add: example_runtime_def example_world_def)
qed

end
